theory Spec2Isabelle
  imports Complex_Main "HOL-Library.Word"
begin

section \<open>Machine types of the target\<close>

text \<open>
  The sketch runs on an Arduino with the CNC shield. \<open>long\<close> and \<open>unsigned long\<close> are
  32 bits wide, \<open>uint8_t\<close> is 8 bits wide. Unsigned arithmetic wraps around; signed values
  are read with \<open>sint\<close>. The width of \<open>int\<close> differs between boards (16 bits on AVR, 32
  bits on ARM); the one \<open>int\<close> argument is only compared and divided by, never
  computed with in its own width, so it is modelled by its value, an integer.
\<close>

type_synonym u8 = "8 word"
type_synonym u32 = "32 word"
type_synonym s32 = "32 word"

text \<open>C++ integer division truncates towards zero.\<close>

definition c_div :: "int \<Rightarrow> int \<Rightarrow> int" where
  "c_div a b = sgn a * sgn b * (\<bar>a\<bar> div \<bar>b\<bar>)"

section \<open>Hardware output\<close>

text \<open>
  \<open>digitalWrite(pin, level)\<close> is the only effect of the step generator. A call is recorded as
  one entry of a log, in program order.
\<close>

datatype level = LOW | HIGH

type_synonym pin_write = "u8 \<times> level"

definition digitalWrite :: "u8 \<Rightarrow> level \<Rightarrow> pin_write list \<Rightarrow> pin_write list" where
  "digitalWrite pin v out = out @ [(pin, v)]"

text \<open>The levels written to one pin, in order.\<close>

definition levels_on :: "u8 \<Rightarrow> pin_write list \<Rightarrow> level list" where
  "levels_on pin out = map snd (filter (\<lambda>w. fst w = pin) out)"

text \<open>A pulse on a pin is a write of HIGH followed directly by a write of LOW.\<close>

fun count_pulses :: "level list \<Rightarrow> nat" where
  "count_pulses (HIGH # LOW # xs) = Suc (count_pulses xs)"
| "count_pulses (x # xs) = count_pulses xs"
| "count_pulses [] = 0"

section \<open>Stepper (Stepper.h, Stepper.cpp)\<close>

record stepper =
  step_pin :: u8
  dir_pin :: u8
  target :: s32
  step_interval :: u32
  position :: s32
  elapsed :: u32

text \<open>The constructor \<open>Stepper::Stepper(step_pin, dir_pin)\<close>.\<close>

definition Stepper_init :: "u8 \<Rightarrow> u8 \<Rightarrow> stepper" where
  "Stepper_init sp dp =
     \<lparr> step_pin = sp, dir_pin = dp, target = 0, step_interval = 200,
       position = 0, elapsed = 0 \<rparr>"

text \<open>
  \<open>Stepper::pollForInterval(interval)\<close>. The result is the new state and the pin writes of
  this call, in order.
\<close>

definition Stepper_pollForInterval :: "u32 \<Rightarrow> stepper \<Rightarrow> stepper \<times> pin_write list" where
  "Stepper_pollForInterval interval s =
     (let s1 = s\<lparr>elapsed := elapsed s + interval\<rparr> in
      if step_interval s1 \<le> elapsed s1 then
        let s2 = s1\<lparr>elapsed := elapsed s1 - step_interval s1\<rparr> in
        if position s2 \<noteq> target s2 then
          let out1 = digitalWrite (dir_pin s2)
                       (if sint (position s2) < sint (target s2) then HIGH else LOW) [];
              out2 = digitalWrite (step_pin s2) HIGH out1;
              s3 = (if sint (position s2) < sint (target s2)
                    then s2\<lparr>position := position s2 + 1\<rparr>
                    else s2\<lparr>position := position s2 - 1\<rparr>);
              out3 = digitalWrite (step_pin s3) LOW out2
          in (s3, out3)
        else (s2, [])
      else (s1, []))"

text \<open>\<open>incrementTarget\<close>, \<open>setTarget\<close>, \<open>currentPosition\<close> and \<open>setSpeed\<close> of Stepper.h.\<close>

definition Stepper_incrementTarget :: "s32 \<Rightarrow> stepper \<Rightarrow> stepper" where
  "Stepper_incrementTarget offset s = s\<lparr>target := target s + offset\<rparr>"

definition Stepper_setTarget :: "s32 \<Rightarrow> stepper \<Rightarrow> stepper" where
  "Stepper_setTarget pos s = s\<lparr>target := pos\<rparr>"

definition Stepper_currentPosition :: "stepper \<Rightarrow> s32" where
  "Stepper_currentPosition s = position s"

definition Stepper_setSpeed :: "int \<Rightarrow> stepper \<Rightarrow> stepper" where
  "Stepper_setSpeed speed s =
     (if 0 < speed then
        let s1 = s\<lparr>step_interval := word_of_int (c_div 1000000 speed)\<rparr> in
        if step_interval s1 = 0 then s1\<lparr>step_interval := 1\<rparr> else s1
      else s)"

text \<open>A sequence of polls, one per interval of the list; the pin writes are concatenated.\<close>

fun polls :: "u32 list \<Rightarrow> stepper \<Rightarrow> stepper \<times> pin_write list" where
  "polls [] s = (s, [])"
| "polls (i # ivs) s =
     (let (s1, w1) = Stepper_pollForInterval i s;
          (s2, w2) = polls ivs s1
      in (s2, w1 @ w2))"

text \<open>The operations a caller can apply to a Stepper, and a run of them.\<close>

datatype stepper_op =
    Poll u32
  | IncrementTarget s32
  | SetTarget s32
  | SetSpeed int

fun apply_op :: "stepper_op \<Rightarrow> stepper \<Rightarrow> stepper" where
  "apply_op (Poll i) s = fst (Stepper_pollForInterval i s)"
| "apply_op (IncrementTarget d) s = Stepper_incrementTarget d s"
| "apply_op (SetTarget p) s = Stepper_setTarget p s"
| "apply_op (SetSpeed v) s = Stepper_setSpeed v s"

fun apply_ops :: "stepper_op list \<Rightarrow> stepper \<Rightarrow> stepper" where
  "apply_ops [] s = s"
| "apply_ops (x # xs) s = apply_ops xs (apply_op x s)"

section \<open>Floating point\<close>

text \<open>
  The path generator computes in \<open>float\<close>. A value is a finite real, an infinity or NaN, as
  in IEEE 754; the two zeros are one value, which no operation of the program tells apart
  (there is no division and no sign test of a zero). The result of an operation on finite
  operands is the exact real result passed through a rounding function \<open>r\<close>, which is a
  parameter of every operation below: it may round, and it may overflow to an infinity.
  The operations on infinities and NaN follow IEEE 754. On the AVR boards the shield is
  made for, \<open>double\<close> is the same 32-bit format as \<open>float\<close>, so one rounding function
  serves the \<open>double\<close> product \<open>1e-6 * interval\<close> as well. Theorems are stated for
  every \<open>r\<close>; \<open>exact\<close> is the rounding that keeps every real.
\<close>

datatype fl = Fin real | PInf | NInf | NaN

definition exact :: "real \<Rightarrow> fl" where
  "exact x = Fin x"

fun fneg :: "fl \<Rightarrow> fl" where
  "fneg (Fin a) = Fin (- a)"
| "fneg PInf = NInf"
| "fneg NInf = PInf"
| "fneg NaN = NaN"

fun fadd :: "(real \<Rightarrow> fl) \<Rightarrow> fl \<Rightarrow> fl \<Rightarrow> fl" where
  "fadd r (Fin a) (Fin c) = r (a + c)"
| "fadd r (Fin a) PInf = PInf"
| "fadd r (Fin a) NInf = NInf"
| "fadd r PInf (Fin c) = PInf"
| "fadd r PInf PInf = PInf"
| "fadd r PInf NInf = NaN"
| "fadd r NInf (Fin c) = NInf"
| "fadd r NInf PInf = NaN"
| "fadd r NInf NInf = NInf"
| "fadd r NaN y = NaN"
| "fadd r x NaN = NaN"

definition fsub :: "(real \<Rightarrow> fl) \<Rightarrow> fl \<Rightarrow> fl \<Rightarrow> fl" where
  "fsub r x y = fadd r x (fneg y)"

text \<open>The product of an infinity and a finite value: its sign, or NaN at zero.\<close>

definition inf_times :: "bool \<Rightarrow> real \<Rightarrow> fl" where
  "inf_times positive a =
     (if a = 0 then NaN else if (0 < a) = positive then PInf else NInf)"

fun fmul :: "(real \<Rightarrow> fl) \<Rightarrow> fl \<Rightarrow> fl \<Rightarrow> fl" where
  "fmul r (Fin a) (Fin c) = r (a * c)"
| "fmul r (Fin a) PInf = inf_times True a"
| "fmul r (Fin a) NInf = inf_times False a"
| "fmul r PInf (Fin c) = inf_times True c"
| "fmul r NInf (Fin c) = inf_times False c"
| "fmul r PInf PInf = PInf"
| "fmul r PInf NInf = NInf"
| "fmul r NInf PInf = NInf"
| "fmul r NInf NInf = PInf"
| "fmul r NaN y = NaN"
| "fmul r x NaN = NaN"

fun fsqrt :: "(real \<Rightarrow> fl) \<Rightarrow> fl \<Rightarrow> fl" where
  "fsqrt r (Fin a) = (if a < 0 then NaN else r (sqrt a))"
| "fsqrt r PInf = PInf"
| "fsqrt r NInf = NaN"
| "fsqrt r NaN = NaN"

text \<open>The comparisons \<open><\<close>, \<open>==\<close> and \<open><=\<close>: false whenever an operand is NaN.\<close>

fun flt :: "fl \<Rightarrow> fl \<Rightarrow> bool" where
  "flt (Fin a) (Fin c) = (a < c)"
| "flt (Fin a) PInf = True"
| "flt NInf (Fin c) = True"
| "flt NInf PInf = True"
| "flt x y = False"

fun feq :: "fl \<Rightarrow> fl \<Rightarrow> bool" where
  "feq (Fin a) (Fin c) = (a = c)"
| "feq PInf PInf = True"
| "feq NInf NInf = True"
| "feq x y = False"

definition fle :: "fl \<Rightarrow> fl \<Rightarrow> bool" where
  "fle x y = (flt x y \<or> feq x y)"

fun fabs :: "fl \<Rightarrow> fl" where
  "fabs (Fin a) = Fin \<bar>a\<bar>"
| "fabs PInf = PInf"
| "fabs NInf = PInf"
| "fabs NaN = NaN"

fun isinf :: "fl \<Rightarrow> bool" where
  "isinf PInf = True"
| "isinf NInf = True"
| "isinf x = False"

fun is_nan :: "fl \<Rightarrow> bool" where
  "is_nan NaN = True"
| "is_nan x = False"

fun is_fin :: "fl \<Rightarrow> bool" where
  "is_fin (Fin a) = True"
| "is_fin x = False"

text \<open>A value the rounding leaves alone: every float the program holds is one.\<close>

fun representable :: "(real \<Rightarrow> fl) \<Rightarrow> fl \<Rightarrow> bool" where
  "representable r (Fin a) = (r a = Fin a)"
| "representable r x = True"

text \<open>Conversion of a \<open>long\<close> and of an \<open>unsigned long\<close> to \<open>float\<close>.\<close>

definition of_long :: "(real \<Rightarrow> fl) \<Rightarrow> s32 \<Rightarrow> fl" where
  "of_long r x = r (real_of_int (sint x))"

definition of_ulong :: "(real \<Rightarrow> fl) \<Rightarrow> u32 \<Rightarrow> fl" where
  "of_ulong r x = r (real (unat x))"

text \<open>
  Modelled from the spec: the macros \<open>constrain\<close>, \<open>min\<close> and \<open>abs\<close> and the constant
  \<open>M_PI\<close> come from Arduino.h and math.h, which are not among the sources. The spec calls
  them clamp, min and absolute value; they are written here as the Arduino core defines
  them, \<open>constrain(amt,low,high) = ((amt)<(low)?(low):((amt)>(high)?(high):(amt)))\<close>,
  \<open>min(a,b) = ((a)<(b)?(a):(b))\<close> and \<open>abs(x) = ((x)>0?(x):-(x))\<close>. \<open>M_PI\<close> is the float
  nearest to \<open>\<pi>\<close>.
\<close>

definition constrain :: "fl \<Rightarrow> fl \<Rightarrow> fl \<Rightarrow> fl" where
  "constrain amt low high = (if flt amt low then low else if flt high amt then high else amt)"

definition min_f :: "fl \<Rightarrow> fl \<Rightarrow> fl" where
  "min_f x y = (if flt x y then x else y)"

definition abs_l :: "s32 \<Rightarrow> s32" where
  "abs_l x = (if 0 < sint x then x else - x)"

definition M_PI :: "(real \<Rightarrow> fl) \<Rightarrow> fl" where
  "M_PI r = r pi"

section \<open>Path (Path.h, Path.cpp)\<close>

record path =
  q :: fl
  qd :: fl
  qdd :: fl
  q_d :: fl
  qd_d :: fl
  q_d_d :: fl
  speed :: fl
  t :: fl
  k :: fl
  b :: fl
  qd_max :: fl
  qdd_max :: fl

text \<open>The inline members of Path.h.\<close>

definition Path_incrementTarget :: "(real \<Rightarrow> fl) \<Rightarrow> s32 \<Rightarrow> path \<Rightarrow> path" where
  "Path_incrementTarget r offset s = s\<lparr>q_d_d := fadd r (q_d_d s) (of_long r offset)\<rparr>"

definition Path_incrementReference :: "(real \<Rightarrow> fl) \<Rightarrow> s32 \<Rightarrow> path \<Rightarrow> path" where
  "Path_incrementReference r offset s = s\<lparr>q_d := fadd r (q_d s) (of_long r offset)\<rparr>"

definition Path_setTarget :: "(real \<Rightarrow> fl) \<Rightarrow> s32 \<Rightarrow> path \<Rightarrow> path" where
  "Path_setTarget r pos s = s\<lparr>q_d_d := of_long r pos\<rparr>"

definition Path_setSpeed :: "(real \<Rightarrow> fl) \<Rightarrow> s32 \<Rightarrow> path \<Rightarrow> path" where
  "Path_setSpeed r newspeed s =
     s\<lparr>speed := (if sint newspeed \<le> 0 then PInf else of_long r newspeed)\<rparr>"

definition Path_setVelocity :: "(real \<Rightarrow> fl) \<Rightarrow> s32 \<Rightarrow> path \<Rightarrow> path" where
  "Path_setVelocity r newspeed s =
     (let s1 = s\<lparr>speed := of_long r (abs_l newspeed)\<rparr> in
      if 0 \<le> sint newspeed then s1\<lparr>q_d_d := PInf\<rparr> else s1\<lparr>q_d_d := NInf\<rparr>)"

definition Path_setPDgains :: "fl \<Rightarrow> fl \<Rightarrow> path \<Rightarrow> path" where
  "Path_setPDgains k_new b_new s = (s\<lparr>k := k_new\<rparr>)\<lparr>b := b_new\<rparr>"

definition Path_setFreqDamping :: "(real \<Rightarrow> fl) \<Rightarrow> fl \<Rightarrow> fl \<Rightarrow> path \<Rightarrow> path" where
  "Path_setFreqDamping r freq damping s =
     (let s1 = s\<lparr>k := fmul r (fmul r (fmul r (fmul r freq freq) (Fin 4)) (M_PI r)) (M_PI r)\<rparr>
      in s1\<lparr>b := fmul r (fmul r (Fin 2) (fsqrt r (k s1))) damping\<rparr>)"

definition Path_setLimits :: "fl \<Rightarrow> fl \<Rightarrow> path \<Rightarrow> path" where
  "Path_setLimits qdmax qddmax s = (s\<lparr>qd_max := qdmax\<rparr>)\<lparr>qdd_max := qddmax\<rparr>"

text \<open>
  The constructor \<open>Path::Path()\<close>. The gains and limits are assigned last; the record
  holds 0 for them until then.
\<close>

definition Path_init :: "(real \<Rightarrow> fl) \<Rightarrow> path" where
  "Path_init r =
     (let s0 = \<lparr> q = Fin 0, qd = Fin 0, qdd = Fin 0, q_d = Fin 0, qd_d = Fin 0,
                 q_d_d = Fin 0, speed = PInf, t = Fin 0, k = Fin 0, b = Fin 0,
                 qd_max = Fin 0, qdd_max = Fin 0 \<rparr>;
          s1 = Path_setFreqDamping r (Fin 2) (Fin 1) s0;
          s2 = s1\<lparr>qd_max := Fin 2400\<rparr>
      in s2\<lparr>qdd_max := Fin 24000\<rparr>)"

text \<open>
  \<open>Path::pollForInterval(interval)\<close>, statement by statement. The local \<open>qdd\<close> of the
  function hides the member of the same name, which is never written.
\<close>

definition Path_pollForInterval :: "(real \<Rightarrow> fl) \<Rightarrow> u32 \<Rightarrow> path \<Rightarrow> path" where
  "Path_pollForInterval r interval s =
     (let dt = fmul r (r (1 / 1000000)) (of_ulong r interval);
          qdd0 = fadd r (fmul r (k s) (fsub r (q_d s) (q s)))
                        (fmul r (b s) (fsub r (qd_d s) (qd s)));
          qdd1 = constrain qdd0 (fneg (qdd_max s)) (qdd_max s);
          s1 = s\<lparr>q := fadd r (q s) (fmul r (qd s) dt)\<rparr>;
          s2 = s1\<lparr>qd := fadd r (qd s1) (fmul r qdd1 dt)\<rparr>;
          s3 = s2\<lparr>t := fadd r (t s2) dt\<rparr>;
          s4 = s3\<lparr>qd := constrain (qd s3) (fneg (qd_max s3)) (qd_max s3)\<rparr>;
          q_d_err = fsub r (q_d_d s4) (q_d s4)
      in if feq q_d_err (Fin 0) then s4\<lparr>qd_d := Fin 0\<rparr>
         else if isinf (speed s4) then (s4\<lparr>q_d := q_d_d s4\<rparr>)\<lparr>qd_d := Fin 0\<rparr>
         else
           let d_q_d_max = fmul r (speed s4) dt in
           if flt (Fin 0) q_d_err then
             let d_q_d = min_f d_q_d_max q_d_err;
                 s5 = s4\<lparr>q_d := fadd r (q_d s4) d_q_d\<rparr>
             in s5\<lparr>qd_d := speed s5\<rparr>
           else
             let d_q_d = min_f d_q_d_max (fneg q_d_err);
                 s5 = s4\<lparr>q_d := fsub r (q_d s4) d_q_d\<rparr>
             in s5\<lparr>qd_d := fneg (speed s5)\<rparr>)"

text \<open>
  The poll algorithm in the words of the specification, for comparison with the function
  above: the time step \<open>dt = interval_us \<cdot> 10\<^sup>-\<^sup>6\<close>, the commanded acceleration
  \<open>k \<cdot> (q_ref - q) + b \<cdot> (qd_ref - qd)\<close> clamped to \<open>[-qdd_max, +qdd_max]\<close>, and the error
  \<open>err = q_target - q_ref\<close> of the reference, all taken in the state before the poll.
\<close>

definition spec_dt :: "(real \<Rightarrow> fl) \<Rightarrow> u32 \<Rightarrow> fl" where
  "spec_dt r interval = fmul r (r (1 / 1000000)) (of_ulong r interval)"

definition spec_qdd :: "(real \<Rightarrow> fl) \<Rightarrow> path \<Rightarrow> fl" where
  "spec_qdd r s =
     constrain (fadd r (fmul r (k s) (fsub r (q_d s) (q s))) (fmul r (b s) (fsub r (qd_d s) (qd s))))
       (fneg (qdd_max s)) (qdd_max s)"

definition spec_err :: "(real \<Rightarrow> fl) \<Rightarrow> path \<Rightarrow> fl" where
  "spec_err r s = fsub r (q_d_d s) (q_d s)"

section \<open>Properties of the step generator\<close>

lemma c_div_pos: "0 < y \<Longrightarrow> 0 \<le> x \<Longrightarrow> c_div x y = x div y"
  by (cases "x = 0") (simp_all add: c_div_def)

lemma setSpeed_interval:
  assumes "0 < v"
  shows "uint (step_interval (Stepper_setSpeed v s)) = max 1 (1000000 div v)"
proof -
  let ?q = "1000000 div v"
  have q0: "0 \<le> ?q" using assms by (simp add: pos_imp_zdiv_nonneg_iff)
  have "?q \<le> 1000000 div 1" using assms by (intro zdiv_mono2) simp_all
  then have q1: "?q < 2 ^ 32" by simp
  have cd: "c_div 1000000 v = ?q" using assms by (simp add: c_div_pos)
  have u: "uint (word_of_int ?q :: u32) = ?q"
    using q0 q1 by (simp add: uint_word_of_int)
  have z: "(word_of_int ?q :: u32) = 0 \<longleftrightarrow> ?q = 0"
    using u by (metis uint_0_iff)
  show ?thesis
  proof (cases "?q = 0")
    case True
    then show ?thesis using assms cd z by (simp add: Stepper_setSpeed_def Let_def)
  next
    case False
    then have "1 \<le> ?q" using q0 by linarith
    then show ?thesis using assms cd z False u
      by (simp add: Stepper_setSpeed_def Let_def max_def)
  qed
qed

lemma sint_succ_lt:
  fixes x y :: s32
  assumes "sint x < sint y"
  shows "sint (x + 1) = sint x + 1"
proof -
  have "sint y < 2 ^ 31" using sint_lt [of y] by simp
  moreover have "- (2 ^ 31) \<le> sint x" using sint_ge [of x] by simp
  ultimately have "signed_take_bit 31 (sint x + 1) = sint x + 1"
    using assms by (intro signed_take_bit_int_eq_self) simp_all
  then show ?thesis by (simp add: sint_word_add)
qed

lemma sint_pred_gt:
  fixes x y :: s32
  assumes "sint y < sint x"
  shows "sint (x - 1) = sint x - 1"
proof -
  have "sint x < 2 ^ 31" using sint_lt [of x] by simp
  moreover have "- (2 ^ 31) \<le> sint y" using sint_ge [of y] by simp
  ultimately have "signed_take_bit 31 (sint x - 1) = sint x - 1"
    using assms by (intro signed_take_bit_int_eq_self) simp_all
  then show ?thesis by (simp add: sint_word_diff)
qed

lemma sint_neq: "(x::s32) \<noteq> y \<Longrightarrow> sint x \<noteq> sint y"
  by (auto intro: signed_word_eqI)

lemma poll_cases:
  "Stepper_pollForInterval i s =
     (if \<not> step_interval s \<le> elapsed s + i then (s\<lparr>elapsed := elapsed s + i\<rparr>, [])
      else if position s = target s
        then (s\<lparr>elapsed := elapsed s + i - step_interval s\<rparr>, [])
      else if sint (position s) < sint (target s)
        then (s\<lparr>elapsed := elapsed s + i - step_interval s, position := position s + 1\<rparr>,
              [(dir_pin s, HIGH), (step_pin s, HIGH), (step_pin s, LOW)])
      else (s\<lparr>elapsed := elapsed s + i - step_interval s, position := position s - 1\<rparr>,
              [(dir_pin s, LOW), (step_pin s, HIGH), (step_pin s, LOW)]))"
  by (simp add: Stepper_pollForInterval_def Let_def digitalWrite_def)

lemma pulses_block:
  "count_pulses (levels_on sp [(dp, d), (sp, HIGH), (sp, LOW)]) = 1"
  by (cases d) (simp_all add: levels_on_def)

lemma poll_frame:
  "step_pin (fst (Stepper_pollForInterval i s)) = step_pin s"
  "dir_pin (fst (Stepper_pollForInterval i s)) = dir_pin s"
  "target (fst (Stepper_pollForInterval i s)) = target s"
  "step_interval (fst (Stepper_pollForInterval i s)) = step_interval s"
  by (simp_all add: poll_cases)

lemma polls_append:
  "polls (xs @ ys) s =
     (fst (polls ys (fst (polls xs s))), snd (polls xs s) @ snd (polls ys (fst (polls xs s))))"
  by (induction xs arbitrary: s) (simp_all add: split_beta Let_def)

lemma polls_frame:
  "step_pin (fst (polls ivs s)) = step_pin s \<and>
   dir_pin (fst (polls ivs s)) = dir_pin s \<and>
   target (fst (polls ivs s)) = target s \<and>
   step_interval (fst (polls ivs s)) = step_interval s"
  by (induction ivs arbitrary: s) (simp_all add: split_beta Let_def poll_frame)

lemma count_pulses_block:
  "count_pulses (levels_on sp ([(dp, d), (sp, HIGH), (sp, LOW)] @ ws)) =
     Suc (count_pulses (levels_on sp ws))"
  by (cases d) (simp_all add: levels_on_def)

lemma poll_outcome:
  "snd (Stepper_pollForInterval i s) = [] \<and>
     position (fst (Stepper_pollForInterval i s)) = position s
   \<or> sint (position s) < sint (target s) \<and>
     snd (Stepper_pollForInterval i s) =
       [(dir_pin s, HIGH), (step_pin s, HIGH), (step_pin s, LOW)] \<and>
     position (fst (Stepper_pollForInterval i s)) = position s + 1
   \<or> sint (target s) < sint (position s) \<and>
     snd (Stepper_pollForInterval i s) =
       [(dir_pin s, LOW), (step_pin s, HIGH), (step_pin s, LOW)] \<and>
     position (fst (Stepper_pollForInterval i s)) = position s - 1"
proof (cases "step_interval s \<le> elapsed s + i \<and> position s \<noteq> target s")
  case False
  then show ?thesis by (auto simp add: poll_cases)
next
  case True
  then have "sint (position s) \<noteq> sint (target s)" by (simp add: sint_neq)
  then consider "sint (position s) < sint (target s)" | "sint (target s) < sint (position s)"
    by linarith
  then show ?thesis using True by cases (simp_all add: poll_cases)
qed

lemma count_pulses_cons:
  "count_pulses (levels_on sp ((dp, d) # (sp, HIGH) # (sp, LOW) # ws)) =
     Suc (count_pulses (levels_on sp ws))"
  using count_pulses_block [of sp dp d ws] by simp

lemma polls_Cons:
  "fst (polls (i # ivs) s) = fst (polls ivs (fst (Stepper_pollForInterval i s)))"
  "snd (polls (i # ivs) s) =
     snd (Stepper_pollForInterval i s) @ snd (polls ivs (fst (Stepper_pollForInterval i s)))"
  by (simp_all add: split_beta Let_def)

lemma polls_down:
  "sint (target s) \<le> sint (position s) \<Longrightarrow>
     sint (target s) \<le> sint (position (fst (polls ivs s))) \<and>
     sint (position (fst (polls ivs s))) =
       sint (position s) - int (count_pulses (levels_on (step_pin s) (snd (polls ivs s)))) \<and>
     (snd (polls ivs s) = [] \<and> position (fst (polls ivs s)) = position s \<or>
      take 3 (snd (polls ivs s)) = [(dir_pin s, LOW), (step_pin s, HIGH), (step_pin s, LOW)] \<and>
      sint (position (fst (polls ivs s))) < sint (position s))"
proof (induction ivs arbitrary: s)
  case Nil
  then show ?case by (simp add: levels_on_def)
next
  case (Cons i ivs)
  let ?P = "Stepper_pollForInterval i s"
  let ?s1 = "fst ?P"
  have fr: "target ?s1 = target s" "step_pin ?s1 = step_pin s" "dir_pin ?s1 = dir_pin s"
    by (simp_all add: poll_frame)
  consider (idle) "snd ?P = []" "position ?s1 = position s"
    | (down) "sint (target s) < sint (position s)"
        "snd ?P = [(dir_pin s, LOW), (step_pin s, HIGH), (step_pin s, LOW)]"
        "position ?s1 = position s - 1"
    using poll_outcome [of i s] Cons.prems by fastforce
  then show ?case
  proof cases
    case idle
    have "sint (target ?s1) \<le> sint (position ?s1)" using Cons.prems idle fr by simp
    from Cons.IH [OF this] show ?thesis unfolding polls_Cons using idle fr by auto
  next
    case down
    have p1: "sint (position ?s1) = sint (position s) - 1"
      using down sint_pred_gt [of "target s" "position s"] by simp
    then have "sint (target ?s1) \<le> sint (position ?s1)" using down fr by simp
    from Cons.IH [OF this] show ?thesis
      unfolding polls_Cons using down fr p1 by (auto simp add: count_pulses_cons)
  qed
qed

lemma polls_up:
  "sint (position s) \<le> sint (target s) \<Longrightarrow>
     sint (position (fst (polls ivs s))) \<le> sint (target s) \<and>
     sint (position (fst (polls ivs s))) =
       sint (position s) + int (count_pulses (levels_on (step_pin s) (snd (polls ivs s))))"
proof (induction ivs arbitrary: s)
  case Nil
  then show ?case by (simp add: levels_on_def)
next
  case (Cons i ivs)
  let ?P = "Stepper_pollForInterval i s"
  let ?s1 = "fst ?P"
  have fr: "target ?s1 = target s" "step_pin ?s1 = step_pin s" "dir_pin ?s1 = dir_pin s"
    by (simp_all add: poll_frame)
  consider (idle) "snd ?P = []" "position ?s1 = position s"
    | (up) "sint (position s) < sint (target s)"
        "snd ?P = [(dir_pin s, HIGH), (step_pin s, HIGH), (step_pin s, LOW)]"
        "position ?s1 = position s + 1"
    using poll_outcome [of i s] Cons.prems by fastforce
  then show ?case
  proof cases
    case idle
    have "sint (position ?s1) \<le> sint (target ?s1)" using Cons.prems idle fr by simp
    from Cons.IH [OF this] show ?thesis unfolding polls_Cons using idle fr by auto
  next
    case up
    have p1: "sint (position ?s1) = sint (position s) + 1"
      using up sint_succ_lt [of "position s" "target s"] by simp
    then have "sint (position ?s1) \<le> sint (target ?s1)" using up fr by simp
    from Cons.IH [OF this] show ?thesis
      unfolding polls_Cons using up fr p1 by (auto simp add: count_pulses_cons)
  qed
qed

lemma four_polls:
  assumes "elapsed s = 0" "step_interval s = 200" "sint (position s) < sint (target s)"
  shows "polls [50, 50, 50, 50] s =
           (s\<lparr>elapsed := 0, position := position s + 1\<rparr>,
            [(dir_pin s, HIGH), (step_pin s, HIGH), (step_pin s, LOW)])"
proof -
  have ne: "position s \<noteq> target s" using assms(3) by auto
  show ?thesis using assms ne by (simp add: poll_cases Let_def)
qed

lemma groups_of_four:
  "elapsed s = 0 \<Longrightarrow> step_interval s = 200 \<Longrightarrow> sint (position s) + int n \<le> sint (target s) \<Longrightarrow>
     sint (position (fst (polls (replicate (4 * n) 50) s))) = sint (position s) + int n \<and>
     count_pulses (levels_on (step_pin s) (snd (polls (replicate (4 * n) 50) s))) = n"
proof (induction n arbitrary: s)
  case 0
  then show ?case by (simp add: levels_on_def)
next
  case (Suc n)
  let ?s1 = "s\<lparr>elapsed := 0, position := position s + 1\<rparr>"
  have lt: "sint (position s) < sint (target s)" using Suc.prems by simp
  have four: "polls [50, 50, 50, 50] s =
      (?s1, [(dir_pin s, HIGH), (step_pin s, HIGH), (step_pin s, LOW)])"
    using Suc.prems lt by (intro four_polls)
  have rep: "replicate (4 * Suc n) (50::u32) = [50, 50, 50, 50] @ replicate (4 * n) 50"
    by (simp add: numeral_eq_Suc)
  have p1: "sint (position ?s1) = sint (position s) + 1"
    using sint_succ_lt [OF lt] by simp
  have "sint (position ?s1) + int n \<le> sint (target ?s1)" using Suc.prems p1 by simp
  with Suc.IH [of ?s1] Suc.prems
  have ih: "sint (position (fst (polls (replicate (4 * n) 50) ?s1))) = sint (position ?s1) + int n"
    "count_pulses (levels_on (step_pin s) (snd (polls (replicate (4 * n) 50) ?s1))) = n"
    by simp_all
  show ?case
    unfolding rep polls_append using ih p1 four by (simp add: count_pulses_cons)
qed

lemma poll_elapsed_lt:
  assumes "elapsed s < step_interval s" and "i \<le> step_interval s"
  shows "elapsed (fst (Stepper_pollForInterval i s)) < step_interval s"
proof (cases "step_interval s \<le> elapsed s + i")
  case False
  then show ?thesis by (simp add: poll_cases)
next
  case True
  have e: "unat (elapsed s) < unat (step_interval s)" using assms(1) by (simp add: word_less_nat_alt)
  have i: "unat i \<le> unat (step_interval s)" using assms(2) by (simp add: word_le_nat_alt)
  have si: "unat (step_interval s) < 2 ^ 32" using unsigned_less [of "step_interval s"] by simp
  have ui: "unat i < 2 ^ 32" using unsigned_less [of i] by simp
  have le: "unat (step_interval s) \<le> unat (elapsed s + i)" using True by (simp add: word_le_nat_alt)
  have nowrap: "unat (elapsed s) + unat i < 2 ^ 32"
  proof (rule ccontr)
    assume "\<not> unat (elapsed s) + unat i < 2 ^ 32"
    then have "unat (elapsed s + i) = unat (elapsed s) + unat i - 2 ^ 32"
      by (simp add: unat_plus_if')
    then show False using le e ui by linarith
  qed
  then have sum: "unat (elapsed s + i) = unat (elapsed s) + unat i" by (simp add: unat_plus_if')
  have "unat (elapsed s + i - step_interval s) = unat (elapsed s + i) - unat (step_interval s)"
    using True by (rule unat_sub)
  then have "unat (elapsed s + i - step_interval s) < unat (step_interval s)"
    using sum e i by linarith
  then have "elapsed s + i - step_interval s < step_interval s" by (simp add: word_less_nat_alt)
  then show ?thesis using True by (simp add: poll_cases)
qed

lemma polls_elapsed_lt:
  "elapsed s < step_interval s \<Longrightarrow> \<forall>i \<in> set ivs. i \<le> step_interval s \<Longrightarrow>
     elapsed (fst (polls ivs s)) < step_interval s"
proof (induction ivs arbitrary: s)
  case Nil
  then show ?case by simp
next
  case (Cons i ivs)
  let ?s1 = "fst (Stepper_pollForInterval i s)"
  have si: "step_interval ?s1 = step_interval s" by (simp add: poll_frame)
  have "elapsed ?s1 < step_interval ?s1"
    using Cons.prems poll_elapsed_lt [of s i] si by simp
  moreover have "\<forall>j \<in> set ivs. j \<le> step_interval ?s1" using Cons.prems si by simp
  ultimately have "elapsed (fst (polls ivs ?s1)) < step_interval ?s1" by (rule Cons.IH)
  then show ?case unfolding polls_Cons using si by simp
qed

lemma setSpeed_interval_pos: "1 \<le> step_interval s \<Longrightarrow> 1 \<le> step_interval (Stepper_setSpeed v s)"
proof (cases "0 < v")
  case True
  from setSpeed_interval [OF this, of s] have "1 \<le> uint (step_interval (Stepper_setSpeed v s))"
    by simp
  then show ?thesis by (simp add: word_le_def)
next
  case False
  assume "1 \<le> step_interval s"
  then show ?thesis using False by (simp add: Stepper_setSpeed_def)
qed

lemma apply_op_interval_pos: "1 \<le> step_interval s \<Longrightarrow> 1 \<le> step_interval (apply_op x s)"
proof (cases x)
  case (Poll i)
  assume "1 \<le> step_interval s"
  then show ?thesis using Poll by (simp add: poll_frame)
next
  case (IncrementTarget d)
  assume "1 \<le> step_interval s"
  then show ?thesis using IncrementTarget by (simp add: Stepper_incrementTarget_def)
next
  case (SetTarget p)
  assume "1 \<le> step_interval s"
  then show ?thesis using SetTarget by (simp add: Stepper_setTarget_def)
next
  case (SetSpeed v)
  assume "1 \<le> step_interval s"
  then show ?thesis using SetSpeed setSpeed_interval_pos [of s v] by simp
qed

lemma apply_ops_interval_pos: "1 \<le> step_interval s \<Longrightarrow> 1 \<le> step_interval (apply_ops xs s)"
proof (induction xs arbitrary: s)
  case Nil
  then show ?case by simp
next
  case (Cons x xs)
  have "1 \<le> step_interval (apply_op x s)" using Cons.prems by (rule apply_op_interval_pos)
  then have "1 \<le> step_interval (apply_ops xs (apply_op x s))" by (rule Cons.IH)
  then show ?case by simp
qed

section \<open>Claims about the step generator\<close>

text \<open>
  C2. One call of \<open>Stepper::pollForInterval\<close> emits at most one step pulse, and
  \<open>position\<close> changes by exactly the number of pulses emitted, so by at most 1. When a
  pulse is emitted, \<open>position\<close> moves by exactly 1 towards \<open>target\<close>. The distance between
  \<open>target\<close> and \<open>position\<close> never grows during a poll.
\<close>

theorem C2_poll_at_most_one_pulse:
  "count_pulses (levels_on (step_pin s) (snd (Stepper_pollForInterval i s))) \<le> 1 \<and>
   \<bar>sint (position (fst (Stepper_pollForInterval i s))) - sint (position s)\<bar> =
     int (count_pulses (levels_on (step_pin s) (snd (Stepper_pollForInterval i s)))) \<and>
   \<bar>sint (position (fst (Stepper_pollForInterval i s))) - sint (position s)\<bar> \<le> 1 \<and>
   (count_pulses (levels_on (step_pin s) (snd (Stepper_pollForInterval i s))) = 1 \<longrightarrow>
      (sint (position s) < sint (target s) \<and>
         sint (position (fst (Stepper_pollForInterval i s))) = sint (position s) + 1
       \<or> sint (target s) < sint (position s) \<and>
         sint (position (fst (Stepper_pollForInterval i s))) = sint (position s) - 1)) \<and>
   \<bar>sint (target (fst (Stepper_pollForInterval i s))) - sint (position (fst (Stepper_pollForInterval i s)))\<bar>
     \<le> \<bar>sint (target s) - sint (position s)\<bar>"
proof -
  have blk: "\<And>d. count_pulses (levels_on (step_pin s) [(dir_pin s, d), (step_pin s, HIGH), (step_pin s, LOW)]) = 1"
    by (rule pulses_block)
  consider (idle) "snd (Stepper_pollForInterval i s) = []" "position (fst (Stepper_pollForInterval i s)) = position s"
    | (up) "sint (position s) < sint (target s)"
        "snd (Stepper_pollForInterval i s) = [(dir_pin s, HIGH), (step_pin s, HIGH), (step_pin s, LOW)]"
        "position (fst (Stepper_pollForInterval i s)) = position s + 1"
    | (down) "sint (target s) < sint (position s)"
        "snd (Stepper_pollForInterval i s) = [(dir_pin s, LOW), (step_pin s, HIGH), (step_pin s, LOW)]"
        "position (fst (Stepper_pollForInterval i s)) = position s - 1"
    using poll_outcome [of i s] by blast
  then show ?thesis
  proof cases
    case idle
    then show ?thesis by (simp add: poll_frame levels_on_def)
  next
    case up
    then show ?thesis using blk [of HIGH] sint_succ_lt [of "position s" "target s"]
      by (simp add: poll_frame)
  next
    case down
    then show ?thesis using blk [of LOW] sint_pred_gt [of "target s" "position s"]
      by (simp add: poll_frame)
  qed
qed

theorem C2_poll_at_most_one_pulse_witness:
  "count_pulses (levels_on 2 (snd (Stepper_pollForInterval 200
      (Stepper_setTarget 3 (Stepper_init 2 5))))) = 1 \<and>
   sint (position (fst (Stepper_pollForInterval 200
      (Stepper_setTarget 3 (Stepper_init 2 5))))) = 1"
  using C2_poll_at_most_one_pulse [of "Stepper_setTarget 3 (Stepper_init 2 5)" 200]
  by (simp add: Stepper_setTarget_def Stepper_init_def poll_cases levels_on_def)

text \<open>
  C5. Scenario S4: from a Stepper with \<open>elapsed = 0\<close>, \<open>step_interval = 200\<close> and
  \<open>target = position + 1000000\<close>, 20000 calls of \<open>pollForInterval(50)\<close> emit exactly
  5000 step pulses and advance \<open>position\<close> by exactly 5000.
\<close>

theorem C5_rate_5000_pulses:
  assumes "elapsed s = 0" and "step_interval s = 200"
    and "sint (target s) = sint (position s) + 1000000"
  shows "count_pulses (levels_on (step_pin s) (snd (polls (replicate 20000 50) s))) = 5000 \<and>
         sint (position (fst (polls (replicate 20000 50) s))) = sint (position s) + 5000"
proof -
  have "sint (position s) + int 5000 \<le> sint (target s)" using assms(3) by simp
  from groups_of_four [OF assms(1,2) this] show ?thesis by simp
qed

theorem C5_rate_5000_pulses_witness:
  "count_pulses (levels_on 2 (snd (polls (replicate 20000 50)
       (Stepper_setTarget 1000000 (Stepper_init 2 5))))) = 5000 \<and>
   sint (position (fst (polls (replicate 20000 50)
       (Stepper_setTarget 1000000 (Stepper_init 2 5))))) = 5000"
  using C5_rate_5000_pulses [of "Stepper_setTarget 1000000 (Stepper_init 2 5)"]
  by (simp add: Stepper_setTarget_def Stepper_init_def)

text \<open>
  C6. A poll that emits a pulse writes the direction pin first, then the step pin HIGH and
  LOW: the direction is HIGH exactly when \<open>position < target\<close> and LOW exactly when
  \<open>position > target\<close>. Scenario S5: from position 100, after \<open>setTarget(-100)\<close>, any
  sequence of polls either writes nothing and leaves the position at 100, or its first
  three writes are direction LOW, step HIGH, step LOW; the position then is 100 minus the
  number of pulses emitted.
\<close>

theorem C6_direction_pin:
  "(snd (Stepper_pollForInterval i s) \<noteq> [] \<longrightarrow>
      sint (position s) < sint (target s) \<and>
        snd (Stepper_pollForInterval i s) =
          [(dir_pin s, HIGH), (step_pin s, HIGH), (step_pin s, LOW)]
      \<or> sint (target s) < sint (position s) \<and>
        snd (Stepper_pollForInterval i s) =
          [(dir_pin s, LOW), (step_pin s, HIGH), (step_pin s, LOW)]) \<and>
   (position s = 100 \<longrightarrow>
      (snd (polls ivs (Stepper_setTarget (- 100) s)) = [] \<and>
         position (fst (polls ivs (Stepper_setTarget (- 100) s))) = 100
       \<or> take 3 (snd (polls ivs (Stepper_setTarget (- 100) s))) =
           [(dir_pin s, LOW), (step_pin s, HIGH), (step_pin s, LOW)] \<and>
         sint (position (fst (polls ivs (Stepper_setTarget (- 100) s)))) < 100) \<and>
      sint (position (fst (polls ivs (Stepper_setTarget (- 100) s)))) =
        100 - int (count_pulses (levels_on (step_pin s)
                     (snd (polls ivs (Stepper_setTarget (- 100) s))))))"
proof -
  have a: "snd (Stepper_pollForInterval i s) \<noteq> [] \<longrightarrow>
      sint (position s) < sint (target s) \<and>
        snd (Stepper_pollForInterval i s) =
          [(dir_pin s, HIGH), (step_pin s, HIGH), (step_pin s, LOW)]
      \<or> sint (target s) < sint (position s) \<and>
        snd (Stepper_pollForInterval i s) =
          [(dir_pin s, LOW), (step_pin s, HIGH), (step_pin s, LOW)]"
    using poll_outcome [of i s] by blast
  have b: "(snd (polls ivs (Stepper_setTarget (- 100) s)) = [] \<and>
         position (fst (polls ivs (Stepper_setTarget (- 100) s))) = 100
       \<or> take 3 (snd (polls ivs (Stepper_setTarget (- 100) s))) =
           [(dir_pin s, LOW), (step_pin s, HIGH), (step_pin s, LOW)] \<and>
         sint (position (fst (polls ivs (Stepper_setTarget (- 100) s)))) < 100) \<and>
      sint (position (fst (polls ivs (Stepper_setTarget (- 100) s)))) =
        100 - int (count_pulses (levels_on (step_pin s)
                     (snd (polls ivs (Stepper_setTarget (- 100) s)))))"
    if p: "position s = 100"
  proof -
    let ?s1 = "Stepper_setTarget (- 100) s"
    have f: "position ?s1 = 100" "target ?s1 = - 100" "step_pin ?s1 = step_pin s"
      "dir_pin ?s1 = dir_pin s"
      using p by (simp_all add: Stepper_setTarget_def)
    have sp: "sint (100 :: s32) = 100" "sint (- 100 :: s32) = - 100" by simp_all
    have "sint (target ?s1) \<le> sint (position ?s1)" unfolding f sp by simp
    from polls_down [OF this, of ivs] show ?thesis unfolding f sp by blast
  qed
  show ?thesis using a b by blast
qed

theorem C6_direction_pin_witness:
  "snd (polls [200] (Stepper_setTarget (- 100) ((Stepper_init 2 5)\<lparr>position := 100\<rparr>))) =
     [(5, LOW), (2, HIGH), (2, LOW)] \<and>
   sint (position (fst (polls [200]
     (Stepper_setTarget (- 100) ((Stepper_init 2 5)\<lparr>position := 100\<rparr>))))) = 99"
proof -
  let ?s0 = "(Stepper_init 2 5)\<lparr>position := 100\<rparr>"
  let ?s1 = "Stepper_setTarget (- 100) ?s0"
  have p: "position ?s0 = 100" by simp
  have w: "snd (polls [200] ?s1) = snd (Stepper_pollForInterval 200 ?s1)"
    "fst (polls [200] ?s1) = fst (Stepper_pollForInterval 200 ?s1)"
    by (simp_all add: split_beta)
  have ne: "snd (Stepper_pollForInterval 200 ?s1) \<noteq> []"
    by (simp add: poll_cases Stepper_setTarget_def Stepper_init_def)
  have dn: "\<not> sint (position ?s1) < sint (target ?s1)"
    by (simp add: Stepper_setTarget_def Stepper_init_def)
  have pins: "dir_pin ?s1 = 5" "step_pin ?s1 = 2" "step_pin ?s0 = 2"
    by (simp_all add: Stepper_setTarget_def Stepper_init_def)
  from C6_direction_pin [of 200 ?s1 "[]"] ne dn
  have 1: "snd (Stepper_pollForInterval 200 ?s1) = [(5, LOW), (2, HIGH), (2, LOW)]"
    unfolding pins by blast
  from C6_direction_pin [of 0 ?s0 "[200]"] p
  have "sint (position (fst (polls [200] ?s1))) =
        100 - int (count_pulses (levels_on (step_pin ?s0) (snd (polls [200] ?s1))))"
    by blast
  then have 2: "sint (position (fst (polls [200] ?s1))) = 99"
    unfolding w 1 pins by (simp add: levels_on_def)
  show ?thesis using 1 2 unfolding w by simp
qed

text \<open>
  C8. \<open>Stepper::setSpeed(v)\<close>: for \<open>v > 0\<close>, \<open>step_interval\<close> becomes
  \<open>max(1, 1000000 / v)\<close> (integer division); for \<open>v \<le> 0\<close> nothing changes. Every
  operation preserves \<open>step_interval \<ge> 1\<close>, and it holds after the constructor and any
  sequence of operations.
\<close>

theorem C8_setSpeed_step_interval:
  "(0 < v \<longrightarrow> uint (step_interval (Stepper_setSpeed v s)) = max 1 (1000000 div v)) \<and>
   (v \<le> 0 \<longrightarrow> Stepper_setSpeed v s = s) \<and>
   (1 \<le> step_interval s \<longrightarrow> 1 \<le> step_interval (apply_op x s)) \<and>
   1 \<le> step_interval (apply_ops xs (Stepper_init sp dp))"
proof -
  have init: "1 \<le> step_interval (Stepper_init sp dp)" by (simp add: Stepper_init_def)
  have a: "0 < v \<longrightarrow> uint (step_interval (Stepper_setSpeed v s)) = max 1 (1000000 div v)"
    using setSpeed_interval [of v s] by blast
  have b: "v \<le> 0 \<longrightarrow> Stepper_setSpeed v s = s" by (simp add: Stepper_setSpeed_def)
  show ?thesis using a b apply_op_interval_pos [of s x] apply_ops_interval_pos [OF init, of xs] by blast
qed

theorem C8_setSpeed_step_interval_witness:
  "uint (step_interval (Stepper_setSpeed 3000000 (Stepper_init 2 5))) = 1 \<and>
   uint (step_interval (Stepper_setSpeed 300 (Stepper_init 2 5))) = 3333 \<and>
   Stepper_setSpeed (- 5) (Stepper_init 2 5) = Stepper_init 2 5 \<and>
   1 \<le> step_interval (apply_op (SetSpeed 0) (Stepper_init 2 5))"
proof -
  have i: "1 \<le> step_interval (Stepper_init 2 5)" by (simp add: Stepper_init_def)
  have "uint (step_interval (Stepper_setSpeed 3000000 (Stepper_init 2 5))) = 1"
    using C8_setSpeed_step_interval [of 3000000 "Stepper_init 2 5" "SetSpeed 0" "[]" 2 5] by simp
  moreover have "uint (step_interval (Stepper_setSpeed 300 (Stepper_init 2 5))) = 3333"
    using C8_setSpeed_step_interval [of 300 "Stepper_init 2 5" "SetSpeed 0" "[]" 2 5] by simp
  moreover have "Stepper_setSpeed (- 5) (Stepper_init 2 5) = Stepper_init 2 5"
    using C8_setSpeed_step_interval [of "- 5" "Stepper_init 2 5" "SetSpeed 0" "[]" 2 5] by simp
  moreover have "1 \<le> step_interval (apply_op (SetSpeed 0) (Stepper_init 2 5))"
    using C8_setSpeed_step_interval [of 1 "Stepper_init 2 5" "SetSpeed 0" "[]" 2 5] i by blast
  ultimately show ?thesis by blast
qed

text \<open>
  C9. Whenever the accumulated \<open>elapsed\<close> reaches \<open>step_interval\<close>, it is reduced by
  \<open>step_interval\<close>, also when \<open>position = target\<close> and no pulse is emitted. Hence, from
  \<open>elapsed = 0\<close> and with every interval argument at most \<open>step_interval\<close> (which is at
  least 1), \<open>elapsed < step_interval\<close> holds after every poll of a sequence. A pulse can be
  emitted on the very first poll after a new target is set: after three idle polls of 50
  on a new Stepper, \<open>setTarget(1)\<close> and one more poll of 50 emit a pulse.
\<close>

theorem C9_elapsed_below_interval:
  "(step_interval s \<le> elapsed s + i \<longrightarrow>
      elapsed (fst (Stepper_pollForInterval i s)) = elapsed s + i - step_interval s) \<and>
   (step_interval s \<le> elapsed s + i \<and> position s = target s \<longrightarrow>
      snd (Stepper_pollForInterval i s) = []) \<and>
   (elapsed s = 0 \<and> 1 \<le> step_interval s \<and> (\<forall>j \<in> set ivs. j \<le> step_interval s) \<longrightarrow>
      (\<forall>n. elapsed (fst (polls (take n ivs) s)) < step_interval s)) \<and>
   count_pulses (levels_on sp (snd (Stepper_pollForInterval 50
      (Stepper_setTarget 1 (fst (polls [50, 50, 50] (Stepper_init sp dp))))))) = 1"
proof -
  have a: "step_interval s \<le> elapsed s + i \<longrightarrow>
      elapsed (fst (Stepper_pollForInterval i s)) = elapsed s + i - step_interval s"
    by (simp add: poll_cases)
  have b: "step_interval s \<le> elapsed s + i \<and> position s = target s \<longrightarrow>
      snd (Stepper_pollForInterval i s) = []"
    by (simp add: poll_cases)
  have c: "elapsed s = 0 \<and> 1 \<le> step_interval s \<and> (\<forall>j \<in> set ivs. j \<le> step_interval s) \<longrightarrow>
      (\<forall>n. elapsed (fst (polls (take n ivs) s)) < step_interval s)"
  proof (intro impI allI)
    fix n
    assume h: "elapsed s = 0 \<and> 1 \<le> step_interval s \<and> (\<forall>j \<in> set ivs. j \<le> step_interval s)"
    then have "elapsed s < step_interval s" by (simp add: word_less_nat_alt word_le_nat_alt)
    moreover have "\<forall>j \<in> set (take n ivs). j \<le> step_interval s"
      using h by (meson in_set_takeD)
    ultimately show "elapsed (fst (polls (take n ivs) s)) < step_interval s"
      by (rule polls_elapsed_lt)
  qed
  have d: "count_pulses (levels_on sp (snd (Stepper_pollForInterval 50
      (Stepper_setTarget 1 (fst (polls [50, 50, 50] (Stepper_init sp dp))))))) = 1"
    by (simp add: Stepper_init_def Stepper_setTarget_def poll_cases Let_def pulses_block)
  from a b c d show ?thesis by blast
qed

theorem C9_elapsed_below_interval_witness:
  "elapsed (fst (Stepper_pollForInterval 50 (fst (polls [50, 50, 50] (Stepper_init 2 5))))) = 0 \<and>
   snd (Stepper_pollForInterval 50 (fst (polls [50, 50, 50] (Stepper_init 2 5)))) = [] \<and>
   elapsed (fst (polls (take 2 [200, 150, 60]) (Stepper_init 2 5))) < 200"
proof -
  let ?s = "fst (polls [50, 50, 50] (Stepper_init 2 5))"
  have s: "?s = (Stepper_init 2 5)\<lparr>elapsed := 150\<rparr>"
    by (simp add: Stepper_init_def poll_cases Let_def)
  have h1: "step_interval ?s \<le> elapsed ?s + 50 \<and> position ?s = target ?s"
    unfolding s by (simp add: Stepper_init_def)
  have e: "elapsed ?s + 50 - step_interval ?s = 0"
    unfolding s by (simp add: Stepper_init_def)
  have h2: "elapsed (Stepper_init 2 5) = 0 \<and> 1 \<le> step_interval (Stepper_init 2 5) \<and>
      (\<forall>j \<in> set [200, 150, 60]. j \<le> step_interval (Stepper_init 2 5))"
    by (simp add: Stepper_init_def)
  have si: "step_interval (Stepper_init 2 5) = 200" by (simp add: Stepper_init_def)
  from C9_elapsed_below_interval [of ?s 50 "[]" 2 5] h1 e
  have "elapsed (fst (Stepper_pollForInterval 50 ?s)) = 0 \<and> snd (Stepper_pollForInterval 50 ?s) = []"
    by metis
  moreover from C9_elapsed_below_interval [of "Stepper_init 2 5" 0 "[200, 150, 60]" 2 5] h2
  have "\<forall>n. elapsed (fst (polls (take n [200, 150, 60]) (Stepper_init 2 5))) < step_interval (Stepper_init 2 5)"
    by blast
  then have "elapsed (fst (polls (take 2 [200, 150, 60]) (Stepper_init 2 5))) < 200"
    unfolding si by (rule spec)
  ultimately show ?thesis by blast
qed

section \<open>Properties of the path generator\<close>

text \<open>The model part of a poll: what the integration leaves in q, qd and t.\<close>

lemma poll_integrate:
  "q (Path_pollForInterval r interval s) = fadd r (q s) (fmul r (qd s) (spec_dt r interval))"
  "qd (Path_pollForInterval r interval s) =
     constrain (fadd r (qd s) (fmul r (spec_qdd r s) (spec_dt r interval)))
       (fneg (qd_max s)) (qd_max s)"
  "t (Path_pollForInterval r interval s) = fadd r (t s) (spec_dt r interval)"
  by (simp_all add: Path_pollForInterval_def Let_def spec_dt_def spec_qdd_def)

lemma poll_frame_path:
  "q_d_d (Path_pollForInterval r interval s) = q_d_d s"
  "speed (Path_pollForInterval r interval s) = speed s"
  "k (Path_pollForInterval r interval s) = k s"
  "b (Path_pollForInterval r interval s) = b s"
  "qd_max (Path_pollForInterval r interval s) = qd_max s"
  "qdd_max (Path_pollForInterval r interval s) = qdd_max s"
  "qdd (Path_pollForInterval r interval s) = qdd s"
  by (simp_all add: Path_pollForInterval_def Let_def)

lemma poll_reference:
  "q_d (Path_pollForInterval r interval s) =
     (if feq (spec_err r s) (Fin 0) then q_d s
      else if isinf (speed s) then q_d_d s
      else if flt (Fin 0) (spec_err r s)
        then fadd r (q_d s) (min_f (fmul r (speed s) (spec_dt r interval)) (spec_err r s))
      else fsub r (q_d s) (min_f (fmul r (speed s) (spec_dt r interval)) (fneg (spec_err r s))))"
  "qd_d (Path_pollForInterval r interval s) =
     (if feq (spec_err r s) (Fin 0) then Fin 0
      else if isinf (speed s) then Fin 0
      else if flt (Fin 0) (spec_err r s) then speed s
      else fneg (speed s))"
  by (simp_all add: Path_pollForInterval_def Let_def spec_dt_def spec_err_def)

lemma fabs_pos: "flt (Fin 0) x \<Longrightarrow> fabs x = x"
  by (cases x) simp_all

lemma fabs_not_pos: "\<not> flt (Fin 0) x \<Longrightarrow> fabs x = fneg x"
  by (cases x) simp_all

lemma constrain_bound:
  assumes "fle (Fin 0) m" and "\<not> is_nan x"
  shows "fle (fabs (constrain x (fneg m) m)) m"
  using assms by (cases x; cases m) (auto simp add: constrain_def fle_def)

lemma constrain_fin: "is_fin m \<Longrightarrow> \<not> is_nan x \<Longrightarrow> is_fin (constrain x (fneg m) m)"
  by (cases x; cases m) (simp_all add: constrain_def)

text \<open>
  The acceleration that is integrated is bounded by \<open>qdd_max\<close> and finite, as long as the
  commanded acceleration is not NaN.
\<close>

lemma spec_qdd_bound:
  assumes "fle (Fin 0) (qdd_max s)"
    and "\<not> is_nan (fadd r (fmul r (k s) (fsub r (q_d s) (q s)))
                      (fmul r (b s) (fsub r (qd_d s) (qd s))))"
  shows "fle (fabs (spec_qdd r s)) (qdd_max s)"
  unfolding spec_qdd_def using assms by (rule constrain_bound)

lemma spec_qdd_fin:
  assumes "is_fin (qdd_max s)"
    and "\<not> is_nan (fadd r (fmul r (k s) (fsub r (q_d s) (q s)))
                      (fmul r (b s) (fsub r (qd_d s) (qd s))))"
  shows "is_fin (spec_qdd r s)"
  unfolding spec_qdd_def using assms by (rule constrain_fin)

lemma Path_init_fields:
  "q (Path_init r) = Fin 0" "qd (Path_init r) = Fin 0" "qdd (Path_init r) = Fin 0"
  "q_d (Path_init r) = Fin 0" "qd_d (Path_init r) = Fin 0" "q_d_d (Path_init r) = Fin 0"
  "speed (Path_init r) = PInf" "t (Path_init r) = Fin 0"
  "qd_max (Path_init r) = Fin 2400" "qdd_max (Path_init r) = Fin 24000"
  by (simp_all add: Path_init_def Path_setFreqDamping_def Let_def)

lemma spec_dt_exact: "spec_dt exact i = Fin (real (unat i) / 1000000)"
  by (simp add: spec_dt_def exact_def of_ulong_def)

lemma sint_abs_l:
  assumes "sint v \<noteq> - (2 ^ 31)"
  shows "sint (abs_l v) = \<bar>sint v\<bar>"
proof (cases "0 < sint v")
  case True
  then show ?thesis by (simp add: abs_l_def)
next
  case False
  have lo: "- (2 ^ 31) \<le> sint v" using sint_ge [of v] by simp
  have "- (2 ^ 31) \<le> - sint v" "- sint v < 2 ^ 31" using False lo assms by linarith+
  then have "signed_take_bit 31 (- sint v) = - sint v"
    by (intro signed_take_bit_int_eq_self) simp_all
  then have "sint (- v) = - sint v" by (simp add: sint_word_minus)
  then show ?thesis using False by (simp add: abs_l_def)
qed

lemma fadd_NaN_right: "fadd r x NaN = NaN"
  by (cases x) simp_all

lemma constrain_NaN: "constrain NaN lo hi = NaN"
  by (cases hi) (simp_all add: constrain_def)

lemma fmul_zero: "r 0 = Fin 0 \<Longrightarrow> is_fin x \<Longrightarrow> fmul r x (Fin 0) = Fin 0"
  by (cases x) simp_all

lemma fadd_zero: "representable r x \<Longrightarrow> fadd r x (Fin 0) = x"
  by (cases x) simp_all

lemma fsub_zero: "representable r x \<Longrightarrow> fsub r x (Fin 0) = x"
  by (cases x) (simp_all add: fsub_def)

lemma spec_dt_zero: "r 0 = Fin 0 \<Longrightarrow> is_fin (r (1 / 1000000)) \<Longrightarrow> spec_dt r 0 = Fin 0"
  by (cases "r (1 / 1000000)") (simp_all add: spec_dt_def of_ulong_def)

lemma constrain_id: "fle (fabs x) m \<Longrightarrow> constrain x (fneg m) m = x"
  by (cases x; cases m) (auto simp add: constrain_def fle_def)

lemma min_f_zero: "flt (Fin 0) x \<Longrightarrow> min_f (Fin 0) x = Fin 0"
  by (simp add: min_f_def)

lemma flt_neg: "flt x (Fin 0) \<Longrightarrow> flt (Fin 0) (fneg x) \<and> \<not> flt (Fin 0) x \<and> \<not> feq x (Fin 0)"
  by (cases x) simp_all

lemma flt_pos_not_eq: "flt (Fin 0) x \<Longrightarrow> \<not> feq x (Fin 0)"
  by (cases x) simp_all

text \<open>
  NaN is reachable with the gains and limits of the constructor and integer commands
  only: velocity mode with unlimited speed moves the reference to \<open>+\<infinity>\<close>; with a finite
  speed the next poll computes the error \<open>\<infinity> - \<infinity>\<close>, the reference becomes NaN, and the
  poll after that integrates a NaN acceleration.
\<close>

lemma default_gains_reach_nan:
  "qd (Path_pollForInterval exact 1000 (Path_pollForInterval exact 1000 (Path_setSpeed exact 5
     (Path_pollForInterval exact 1000 (Path_setSpeed exact 0
        (Path_setVelocity exact 100 (Path_init exact))))))) = NaN"
proof -
  have kpos: "k (Path_init exact) = Fin (16 * pi * pi)"
    by (simp add: Path_init_def Path_setFreqDamping_def Let_def M_PI_def exact_def)
  have bfin: "is_fin (b (Path_init exact))"
    by (simp add: Path_init_def Path_setFreqDamping_def Let_def M_PI_def exact_def)
  then obtain bb where bb: "b (Path_init exact) = Fin bb" by (cases "b (Path_init exact)") simp_all
  let ?s0 = "Path_setSpeed exact 0 (Path_setVelocity exact 100 (Path_init exact))"
  have s0: "q ?s0 = Fin 0" "qd ?s0 = Fin 0" "q_d ?s0 = Fin 0" "qd_d ?s0 = Fin 0"
    "q_d_d ?s0 = PInf" "speed ?s0 = PInf" "k ?s0 = Fin (16 * pi * pi)" "b ?s0 = Fin bb"
    "qd_max ?s0 = Fin 2400" "qdd_max ?s0 = Fin 24000"
    by (simp_all add: Path_setSpeed_def Path_setVelocity_def Let_def Path_init_fields kpos bb)
  let ?s1 = "Path_pollForInterval exact 1000 ?s0"
  have e0: "spec_err exact ?s0 = PInf" by (simp add: spec_err_def s0 fsub_def)
  have q0: "spec_qdd exact ?s0 = Fin 0"
    by (simp add: spec_qdd_def s0 fsub_def exact_def constrain_def)
  have s1: "q ?s1 = Fin 0" "qd ?s1 = Fin 0" "q_d ?s1 = PInf" "qd_d ?s1 = Fin 0"
    "q_d_d ?s1 = PInf" "k ?s1 = Fin (16 * pi * pi)" "b ?s1 = Fin bb"
    "qd_max ?s1 = Fin 2400" "qdd_max ?s1 = Fin 24000"
    by (simp_all add: poll_integrate poll_reference poll_frame_path s0 e0 q0 spec_dt_exact
        exact_def constrain_def)
  let ?s2 = "Path_setSpeed exact 5 ?s1"
  have s2: "q ?s2 = Fin 0" "qd ?s2 = Fin 0" "q_d ?s2 = PInf" "qd_d ?s2 = Fin 0"
    "q_d_d ?s2 = PInf" "speed ?s2 = Fin 5" "k ?s2 = Fin (16 * pi * pi)" "b ?s2 = Fin bb"
    "qd_max ?s2 = Fin 2400" "qdd_max ?s2 = Fin 24000"
    by (simp_all add: Path_setSpeed_def [of exact 5 ?s1] s1 s0 poll_frame_path of_long_def exact_def)
  let ?s3 = "Path_pollForInterval exact 1000 ?s2"
  have e2: "spec_err exact ?s2 = NaN" by (simp add: spec_err_def s2 fsub_def)
  have "q_d ?s3 = fsub exact (q_d ?s2)
      (min_f (fmul exact (speed ?s2) (spec_dt exact 1000)) (fneg (spec_err exact ?s2)))"
    unfolding poll_reference e2 s2 by simp
  then have r3: "q_d ?s3 = NaN" unfolding e2 s2 spec_dt_exact
    by (simp add: min_f_def exact_def fsub_def)
  have "spec_qdd exact ?s3 = NaN"
    unfolding spec_qdd_def r3 by (cases "k ?s3"; cases "q ?s3") (simp_all add: fsub_def constrain_def)
  then show ?thesis
    by (simp add: poll_integrate [of exact 1000 ?s3] fadd_NaN_right constrain_NaN)
qed

lemma constrain_is_nan: "is_nan (constrain x lo hi) = is_nan x"
  by (cases x; cases lo; cases hi) (simp_all add: constrain_def)

text \<open>The velocity is NaN after a poll exactly when the integration produced NaN.\<close>

lemma poll_qd_nan_iff:
  "is_nan (qd (Path_pollForInterval r interval s)) =
     is_nan (fadd r (qd s) (fmul r (spec_qdd r s) (spec_dt r interval)))"
  by (simp add: poll_integrate constrain_is_nan)

text \<open>
  The code tests \<open>err == 0\<close>, not \<open>q_ref == q_target\<close>. For finite values the two agree
  when the rounding keeps 0 and rounds no other difference to 0.
\<close>

lemma spec_err_zero_iff:
  assumes "r 0 = Fin 0" and "\<forall>x. r x = Fin 0 \<longrightarrow> x = 0"
    and "is_fin (q_d s)" and "is_fin (q_d_d s)"
  shows "feq (spec_err r s) (Fin 0) = (q_d_d s = q_d s)"
proof -
  obtain x where x: "q_d s = Fin x" using assms(3) by (cases "q_d s") simp_all
  obtain y where y: "q_d_d s = Fin y" using assms(4) by (cases "q_d_d s") simp_all
  have e: "spec_err r s = r (y - x)" by (simp add: spec_err_def fsub_def x y)
  have "feq (r (y - x)) (Fin 0) = (r (y - x) = Fin 0)" by (cases "r (y - x)") simp_all
  also have "\<dots> = (y - x = 0)" using assms(1,2) by auto
  finally show ?thesis by (simp add: e x y)
qed

section \<open>Claims about the path generator\<close>

text \<open>
  C1 (amended). After a call of \<open>Path::pollForInterval\<close>, for any prior state, any interval
  and any rounding, with \<open>qd_max \<ge> 0\<close>: unless the velocity \<open>qd\<close> is NaN on return, it
  satisfies \<open>|qd| \<le> qd_max\<close>.
\<close>

theorem C1_velocity_bound_unless_nan:
  assumes "fle (Fin 0) (qd_max s)"
    and "\<not> is_nan (qd (Path_pollForInterval r interval s))"
  shows "fle (fabs (qd (Path_pollForInterval r interval s)))
           (qd_max (Path_pollForInterval r interval s))"
proof -
  let ?x = "fadd r (qd s) (fmul r (spec_qdd r s) (spec_dt r interval))"
  have eq: "qd (Path_pollForInterval r interval s) = constrain ?x (fneg (qd_max s)) (qd_max s)"
    by (simp add: poll_integrate)
  have "\<not> is_nan ?x"
  proof
    assume "is_nan ?x"
    then have "?x = NaN" by (cases ?x) simp_all
    then have "constrain ?x (fneg (qd_max s)) (qd_max s) = NaN" by (simp add: constrain_def)
    then show False using assms(2) eq by simp
  qed
  from constrain_bound [OF assms(1) this] show ?thesis using eq by (simp add: poll_frame_path)
qed

theorem C1_velocity_bound_unless_nan_witness:
  "fle (Fin 0) (qd_max ((Path_setPDgains (Fin 100) (Fin 20) (Path_init exact))\<lparr>qd := Fin 5000\<rparr>)) \<and>
   qd (Path_pollForInterval exact 1000
        ((Path_setPDgains (Fin 100) (Fin 20) (Path_init exact))\<lparr>qd := Fin 5000\<rparr>)) = Fin 2400 \<and>
   fle (fabs (qd (Path_pollForInterval exact 1000
        ((Path_setPDgains (Fin 100) (Fin 20) (Path_init exact))\<lparr>qd := Fin 5000\<rparr>))))
     (qd_max (Path_pollForInterval exact 1000
        ((Path_setPDgains (Fin 100) (Fin 20) (Path_init exact))\<lparr>qd := Fin 5000\<rparr>)))"
proof -
  let ?s = "(Path_setPDgains (Fin 100) (Fin 20) (Path_init exact))\<lparr>qd := Fin 5000\<rparr>"
  have s: "q ?s = Fin 0" "qd ?s = Fin 5000" "q_d ?s = Fin 0" "qd_d ?s = Fin 0"
    "k ?s = Fin 100" "b ?s = Fin 20" "qd_max ?s = Fin 2400" "qdd_max ?s = Fin 24000"
    by (simp_all add: Path_setPDgains_def Path_init_fields)
  have a: "spec_qdd exact ?s = Fin (- 24000)"
    by (simp add: spec_qdd_def s fsub_def exact_def constrain_def)
  have v: "qd (Path_pollForInterval exact 1000 ?s) = Fin 2400"
    by (simp add: poll_integrate s a spec_dt_exact exact_def constrain_def)
  have h1: "fle (Fin 0) (qd_max ?s)" by (simp add: s fle_def)
  have h2: "\<not> is_nan (qd (Path_pollForInterval exact 1000 ?s))" unfolding v by simp
  from C1_velocity_bound_unless_nan [OF h1 h2] h1 v show ?thesis by blast
qed

text \<open>
  C1 as stated fails: the bound does not hold for every prior state. With both gains set
  to 0, velocity mode and unlimited speed, the first poll moves the reference to \<open>+\<infinity>\<close>
  and the second computes \<open>0 \<cdot> \<infinity>\<close>; \<open>constrain\<close> passes the NaN on, and \<open>qd\<close> is NaN on
  return although \<open>qd_max = 2400\<close>.
\<close>

theorem C1_velocity_bound_counterexample:
  "fle (Fin 0) (qd_max (Path_pollForInterval exact 1000 (Path_setSpeed exact 0
       (Path_setVelocity exact 1 (Path_setPDgains (Fin 0) (Fin 0) (Path_init exact)))))) \<and>
   \<not> fle (fabs (qd (Path_pollForInterval exact 1000 (Path_pollForInterval exact 1000
         (Path_setSpeed exact 0 (Path_setVelocity exact 1
           (Path_setPDgains (Fin 0) (Fin 0) (Path_init exact))))))))
       (qd_max (Path_pollForInterval exact 1000 (Path_pollForInterval exact 1000
         (Path_setSpeed exact 0 (Path_setVelocity exact 1
           (Path_setPDgains (Fin 0) (Fin 0) (Path_init exact)))))))"
proof -
  let ?s0 = "Path_setSpeed exact 0 (Path_setVelocity exact 1
           (Path_setPDgains (Fin 0) (Fin 0) (Path_init exact)))"
  have s0: "q ?s0 = Fin 0" "qd ?s0 = Fin 0" "q_d ?s0 = Fin 0" "qd_d ?s0 = Fin 0"
    "q_d_d ?s0 = PInf" "speed ?s0 = PInf" "k ?s0 = Fin 0" "b ?s0 = Fin 0"
    "qd_max ?s0 = Fin 2400" "qdd_max ?s0 = Fin 24000"
    by (simp_all add: Path_setSpeed_def Path_setVelocity_def Path_setPDgains_def Let_def
        Path_init_fields)
  let ?s1 = "Path_pollForInterval exact 1000 ?s0"
  have e0: "spec_err exact ?s0 = PInf" by (simp add: spec_err_def s0 fsub_def)
  have q0: "spec_qdd exact ?s0 = Fin 0"
    by (simp add: spec_qdd_def s0 fsub_def exact_def constrain_def)
  have s1: "q ?s1 = Fin 0" "qd ?s1 = Fin 0" "q_d ?s1 = PInf" "qd_d ?s1 = Fin 0"
    "k ?s1 = Fin 0" "b ?s1 = Fin 0" "qd_max ?s1 = Fin 2400" "qdd_max ?s1 = Fin 24000"
    by (simp_all add: poll_integrate poll_reference poll_frame_path s0 e0 q0 spec_dt_exact
        exact_def constrain_def)
  have q1: "spec_qdd exact ?s1 = NaN"
    by (simp add: spec_qdd_def s1 fsub_def exact_def constrain_def inf_times_def)
  have "qd (Path_pollForInterval exact 1000 ?s1) =
      constrain (fadd exact (qd ?s1) (fmul exact (spec_qdd exact ?s1) (spec_dt exact 1000)))
        (fneg (qd_max ?s1)) (qd_max ?s1)"
    by (rule poll_integrate)
  then have nan: "qd (Path_pollForInterval exact 1000 ?s1) = NaN"
    unfolding s1 q1 spec_dt_exact by (simp add: constrain_def)
  have m: "qd_max (Path_pollForInterval exact 1000 ?s1) = Fin 2400"
    "qd_max ?s1 = Fin 2400"
    by (simp_all add: poll_frame_path s0)
  show ?thesis unfolding nan m by (simp add: fle_def)
qed

text \<open>
  C3. In every call of \<open>Path::pollForInterval\<close>, with \<open>dt = interval \<cdot> 10\<^sup>-\<^sup>6\<close>: the new
  \<open>q\<close> is \<open>q + qd \<cdot> dt\<close> with the velocity from before the poll, the new \<open>qd\<close> is the
  clamped \<open>qd + qdd \<cdot> dt\<close> where \<open>qdd\<close> is the commanded acceleration of the state before
  the poll clamped to \<open>[-qdd_max, +qdd_max]\<close>, and the new \<open>t\<close> is \<open>t + dt\<close>.
\<close>

theorem C3_integration_order:
  "q (Path_pollForInterval r interval s) = fadd r (q s) (fmul r (qd s) (spec_dt r interval)) \<and>
   qd (Path_pollForInterval r interval s) =
     constrain (fadd r (qd s) (fmul r (spec_qdd r s) (spec_dt r interval)))
       (fneg (qd_max s)) (qd_max s) \<and>
   t (Path_pollForInterval r interval s) = fadd r (t s) (spec_dt r interval)"
  by (simp add: poll_integrate)

text \<open>
  C4. The reference step of \<open>Path::pollForInterval\<close> is the case analysis on
  \<open>err = q_target - q_ref\<close>: if \<open>err == 0\<close>, \<open>qd_ref\<close> becomes 0 and \<open>q_ref\<close> stays; else
  if \<open>speed\<close> is infinite, \<open>q_ref\<close> becomes \<open>q_target\<close> and \<open>qd_ref\<close> becomes 0; else
  \<open>q_ref\<close> moves by \<open>min(speed \<cdot> dt, |err|)\<close>, up with \<open>qd_ref = +speed\<close> when \<open>err > 0\<close>
  and down with \<open>qd_ref = -speed\<close> otherwise, whichever of the two the minimum is (so
  also on the poll that completes the ramp).
\<close>

theorem C4_reference_advance:
  "(feq (spec_err r s) (Fin 0) \<longrightarrow>
      qd_d (Path_pollForInterval r interval s) = Fin 0 \<and>
      q_d (Path_pollForInterval r interval s) = q_d s) \<and>
   (\<not> feq (spec_err r s) (Fin 0) \<and> isinf (speed s) \<longrightarrow>
      q_d (Path_pollForInterval r interval s) = q_d_d s \<and>
      qd_d (Path_pollForInterval r interval s) = Fin 0) \<and>
   (\<not> feq (spec_err r s) (Fin 0) \<and> \<not> isinf (speed s) \<and> flt (Fin 0) (spec_err r s) \<longrightarrow>
      q_d (Path_pollForInterval r interval s) =
        fadd r (q_d s) (min_f (fmul r (speed s) (spec_dt r interval)) (fabs (spec_err r s))) \<and>
      qd_d (Path_pollForInterval r interval s) = speed s) \<and>
   (\<not> feq (spec_err r s) (Fin 0) \<and> \<not> isinf (speed s) \<and> \<not> flt (Fin 0) (spec_err r s) \<longrightarrow>
      q_d (Path_pollForInterval r interval s) =
        fsub r (q_d s) (min_f (fmul r (speed s) (spec_dt r interval)) (fabs (spec_err r s))) \<and>
      qd_d (Path_pollForInterval r interval s) = fneg (speed s))"
  by (simp add: poll_reference fabs_pos fabs_not_pos)

theorem C4_reference_advance_witness:
  "q_d (Path_pollForInterval exact 1000
      (Path_setSpeed exact 500 (Path_setTarget exact 1000 (Path_init exact)))) = Fin (1 / 2) \<and>
   qd_d (Path_pollForInterval exact 1000
      (Path_setSpeed exact 500 (Path_setTarget exact 1000 (Path_init exact)))) = Fin 500 \<and>
   q_d (Path_pollForInterval exact 1000000
      (Path_setSpeed exact 500 (Path_setTarget exact 1 (Path_init exact)))) = Fin 1 \<and>
   qd_d (Path_pollForInterval exact 1000000
      (Path_setSpeed exact 500 (Path_setTarget exact 1 (Path_init exact)))) = Fin 500 \<and>
   q_d (Path_pollForInterval exact 1000
      (Path_setSpeed exact 500 (Path_setTarget exact (- 1000) (Path_init exact)))) = Fin (- 1 / 2) \<and>
   qd_d (Path_pollForInterval exact 1000
      (Path_setSpeed exact 500 (Path_setTarget exact (- 1000) (Path_init exact)))) = Fin (- 500) \<and>
   q_d (Path_pollForInterval exact 1000 (Path_setTarget exact 1000 (Path_init exact))) = Fin 1000 \<and>
   qd_d (Path_pollForInterval exact 1000 (Path_setTarget exact 1000 (Path_init exact))) = Fin 0 \<and>
   q_d (Path_pollForInterval exact 1000 (Path_init exact)) = Fin 0 \<and>
   qd_d (Path_pollForInterval exact 1000 (Path_init exact)) = Fin 0"
proof -
  let ?fw = "Path_setSpeed exact 500 (Path_setTarget exact 1000 (Path_init exact))"
  let ?fin = "Path_setSpeed exact 500 (Path_setTarget exact 1 (Path_init exact))"
  let ?bw = "Path_setSpeed exact 500 (Path_setTarget exact (- 1000) (Path_init exact))"
  let ?jump = "Path_setTarget exact 1000 (Path_init exact)"
  have fw: "q_d ?fw = Fin 0" "speed ?fw = Fin 500" "spec_err exact ?fw = Fin 1000"
    by (simp_all add: Path_setSpeed_def Path_setTarget_def Path_init_fields spec_err_def
        of_long_def exact_def fsub_def)
  have fin: "q_d ?fin = Fin 0" "speed ?fin = Fin 500" "spec_err exact ?fin = Fin 1"
    by (simp_all add: Path_setSpeed_def Path_setTarget_def Path_init_fields spec_err_def
        of_long_def exact_def fsub_def)
  have bw: "q_d ?bw = Fin 0" "speed ?bw = Fin 500" "spec_err exact ?bw = Fin (- 1000)"
    by (simp_all add: Path_setSpeed_def Path_setTarget_def Path_init_fields spec_err_def
        of_long_def exact_def fsub_def)
  have jump: "q_d_d ?jump = Fin 1000" "speed ?jump = PInf" "spec_err exact ?jump = Fin 1000"
    by (simp_all add: Path_setTarget_def Path_init_fields spec_err_def
        of_long_def exact_def fsub_def)
  have still: "q_d (Path_init exact) = Fin 0" "spec_err exact (Path_init exact) = Fin 0"
    by (simp_all add: Path_init_fields spec_err_def exact_def fsub_def)
  have 1: "q_d (Path_pollForInterval exact 1000 ?fw) = Fin (1 / 2) \<and>
           qd_d (Path_pollForInterval exact 1000 ?fw) = Fin 500"
    using C4_reference_advance [of exact ?fw 1000] unfolding fw spec_dt_exact
    by (simp add: min_f_def exact_def)
  have 2: "q_d (Path_pollForInterval exact 1000000 ?fin) = Fin 1 \<and>
           qd_d (Path_pollForInterval exact 1000000 ?fin) = Fin 500"
    using C4_reference_advance [of exact ?fin 1000000] unfolding fin spec_dt_exact
    by (simp add: min_f_def exact_def)
  have 3: "q_d (Path_pollForInterval exact 1000 ?bw) = Fin (- 1 / 2) \<and>
           qd_d (Path_pollForInterval exact 1000 ?bw) = Fin (- 500)"
    using C4_reference_advance [of exact ?bw 1000] unfolding bw spec_dt_exact
    by (simp add: min_f_def exact_def fsub_def)
  have 4: "q_d (Path_pollForInterval exact 1000 ?jump) = Fin 1000 \<and>
           qd_d (Path_pollForInterval exact 1000 ?jump) = Fin 0"
    using C4_reference_advance [of exact ?jump 1000] unfolding jump by simp
  have 5: "q_d (Path_pollForInterval exact 1000 (Path_init exact)) = Fin 0 \<and>
           qd_d (Path_pollForInterval exact 1000 (Path_init exact)) = Fin 0"
    using C4_reference_advance [of exact "Path_init exact" 1000] unfolding still by simp
  show ?thesis using 1 2 3 4 5 by blast
qed

text \<open>
  C7 (amended). \<open>setSpeed(v)\<close> stores \<open>+\<infinity>\<close> for \<open>v \<le> 0\<close> and \<open>v\<close> converted to float for
  \<open>v > 0\<close>. \<open>setVelocity(v)\<close>, for \<open>v\<close> other than the least \<open>long\<close>, stores \<open>|v|\<close>
  converted to float (never \<open>+\<infinity>\<close> in place of a non-positive \<open>v\<close>) and sets the target to
  \<open>+\<infinity>\<close> for \<open>v \<ge> 0\<close> and to \<open>-\<infinity>\<close> for \<open>v < 0\<close>. With a conversion that keeps
  non-negative values non-negative, \<open>speed \<ge> 0\<close> holds after both.
\<close>

theorem C7_speed_setters:
  "(sint v \<le> 0 \<longrightarrow> speed (Path_setSpeed r v s) = PInf) \<and>
   (0 < sint v \<longrightarrow> speed (Path_setSpeed r v s) = r (real_of_int (sint v))) \<and>
   (sint v \<noteq> - (2 ^ 31) \<longrightarrow> speed (Path_setVelocity r v s) = r (real_of_int \<bar>sint v\<bar>)) \<and>
   q_d_d (Path_setVelocity r v s) = (if 0 \<le> sint v then PInf else NInf) \<and>
   ((\<forall>x. 0 \<le> x \<longrightarrow> fle (Fin 0) (r x)) \<longrightarrow>
      fle (Fin 0) (speed (Path_setSpeed r v s)) \<and>
      (sint v \<noteq> - (2 ^ 31) \<longrightarrow> fle (Fin 0) (speed (Path_setVelocity r v s))))"
proof -
  have a: "sint v \<le> 0 \<longrightarrow> speed (Path_setSpeed r v s) = PInf"
    by (simp add: Path_setSpeed_def)
  have b: "0 < sint v \<longrightarrow> speed (Path_setSpeed r v s) = r (real_of_int (sint v))"
    by (simp add: Path_setSpeed_def of_long_def)
  have c: "speed (Path_setVelocity r v s) = r (real_of_int \<bar>sint v\<bar>)" if "sint v \<noteq> - (2 ^ 31)"
    using sint_abs_l [OF that] by (simp add: Path_setVelocity_def Let_def of_long_def)
  have d: "q_d_d (Path_setVelocity r v s) = (if 0 \<le> sint v then PInf else NInf)"
    by (simp add: Path_setVelocity_def Let_def)
  have e: "fle (Fin 0) (speed (Path_setSpeed r v s)) \<and>
      (sint v \<noteq> - (2 ^ 31) \<longrightarrow> fle (Fin 0) (speed (Path_setVelocity r v s)))"
    if sg: "\<forall>x. 0 \<le> x \<longrightarrow> fle (Fin 0) (r x)"
  proof -
    have 1: "fle (Fin 0) (speed (Path_setSpeed r v s))"
    proof (cases "sint v \<le> 0")
      case True
      then show ?thesis using a by (simp add: fle_def)
    next
      case False
      then have "speed (Path_setSpeed r v s) = r (real_of_int (sint v))" using b by simp
      moreover have "0 \<le> real_of_int (sint v)" using False by linarith
      ultimately show ?thesis using sg by metis
    qed
    have "0 \<le> real_of_int \<bar>sint v\<bar>" by linarith
    then have 2: "fle (Fin 0) (speed (Path_setVelocity r v s))" if "sint v \<noteq> - (2 ^ 31)"
      using c [OF that] sg by metis
    show ?thesis using 1 2 by blast
  qed
  show ?thesis using a b c d e by blast
qed

theorem C7_speed_setters_witness:
  "speed (Path_setSpeed exact 0 (Path_init exact)) = PInf \<and>
   speed (Path_setSpeed exact 500 (Path_init exact)) = Fin 500 \<and>
   speed (Path_setVelocity exact (- 300) (Path_init exact)) = Fin 300 \<and>
   fle (Fin 0) (speed (Path_setSpeed exact 500 (Path_init exact))) \<and>
   fle (Fin 0) (speed (Path_setVelocity exact (- 300) (Path_init exact)))"
proof -
  have sg: "\<forall>x. 0 \<le> x \<longrightarrow> fle (Fin 0) (exact x)" by (auto simp add: exact_def fle_def)
  have n: "sint (- 300 :: s32) \<noteq> - (2 ^ 31)" "sint (- 300 :: s32) = - 300" by simp_all
  have p: "0 < sint (500 :: s32)" "sint (500 :: s32) = 500" by simp_all
  have z: "sint (0 :: s32) \<le> 0" by simp
  have 1: "speed (Path_setSpeed exact 0 (Path_init exact)) = PInf"
    using C7_speed_setters [of 0 exact "Path_init exact"] z by blast
  have 2: "speed (Path_setSpeed exact 500 (Path_init exact)) = Fin 500"
    using C7_speed_setters [of 500 exact "Path_init exact"] p by (simp add: exact_def)
  have 3: "speed (Path_setVelocity exact (- 300) (Path_init exact)) = Fin 300"
    using C7_speed_setters [of "- 300" exact "Path_init exact"] n by (simp add: exact_def)
  have 4: "fle (Fin 0) (speed (Path_setSpeed exact 500 (Path_init exact)))"
    using C7_speed_setters [of 500 exact "Path_init exact"] sg by blast
  have 5: "fle (Fin 0) (speed (Path_setVelocity exact (- 300) (Path_init exact)))"
    using C7_speed_setters [of "- 300" exact "Path_init exact"] sg n(1) by blast
  show ?thesis using 1 2 3 4 5 by blast
qed

text \<open>
  C7 as stated fails for \<open>setVelocity\<close>: a non-positive argument is not stored as \<open>+\<infinity>\<close>.
  \<open>setVelocity(0)\<close> stores the speed 0 and \<open>setVelocity(-5)\<close> stores 5.
\<close>

theorem C7_setVelocity_counterexample:
  "sint (0 :: s32) \<le> 0 \<and>
   speed (Path_setVelocity exact 0 (Path_init exact)) = Fin 0 \<and>
   speed (Path_setVelocity exact 0 (Path_init exact)) \<noteq> PInf \<and>
   sint (- 5 :: s32) \<le> 0 \<and>
   speed (Path_setVelocity exact (- 5) (Path_init exact)) = Fin 5 \<and>
   speed (Path_setVelocity exact (- 5) (Path_init exact)) \<noteq> PInf"
  by (simp add: Path_setVelocity_def Let_def abs_l_def of_long_def exact_def)

text \<open>
  C10 (amended). \<open>Path::pollForInterval(0)\<close> leaves \<open>q\<close>, \<open>qd\<close> and \<open>t\<close> unchanged when
  \<open>qd\<close> is finite with \<open>|qd| \<le> qd_max\<close> and the clamped commanded acceleration is finite
  (the rounding keeps 0 and the stored values, and \<open>10\<^sup>-\<^sup>6\<close> rounds to a finite value).
  The reference step still runs: if \<open>err\<close> is not 0 and \<open>speed\<close> is infinite, \<open>q_ref\<close>
  becomes \<open>q_target\<close> and \<open>qd_ref\<close> becomes 0; if \<open>speed\<close> is finite, \<open>qd_ref\<close> becomes
  \<open>+speed\<close> for \<open>err > 0\<close> and \<open>-speed\<close> for \<open>err < 0\<close>, and \<open>q_ref\<close> stays.
\<close>

theorem C10_zero_interval:
  assumes r0: "r 0 = Fin 0" and c: "is_fin (r (1 / 1000000))"
    and rq: "representable r (q s)" and rqd: "representable r (qd s)"
    and rt: "representable r (t s)" and rref: "representable r (q_d s)"
    and fqd: "is_fin (qd s)" and bound: "fle (fabs (qd s)) (qd_max s)"
    and facc: "is_fin (spec_qdd r s)"
  shows "q (Path_pollForInterval r 0 s) = q s \<and>
         qd (Path_pollForInterval r 0 s) = qd s \<and>
         t (Path_pollForInterval r 0 s) = t s \<and>
         (\<not> feq (spec_err r s) (Fin 0) \<and> isinf (speed s) \<longrightarrow>
            q_d (Path_pollForInterval r 0 s) = q_d_d s \<and>
            qd_d (Path_pollForInterval r 0 s) = Fin 0) \<and>
         (is_fin (speed s) \<and> flt (Fin 0) (spec_err r s) \<longrightarrow>
            qd_d (Path_pollForInterval r 0 s) = speed s \<and>
            q_d (Path_pollForInterval r 0 s) = q_d s) \<and>
         (is_fin (speed s) \<and> flt (spec_err r s) (Fin 0) \<longrightarrow>
            qd_d (Path_pollForInterval r 0 s) = fneg (speed s) \<and>
            q_d (Path_pollForInterval r 0 s) = q_d s)"
proof -
  have dt: "spec_dt r 0 = Fin 0" using r0 c by (rule spec_dt_zero)
  have m1: "fmul r (qd s) (Fin 0) = Fin 0" using r0 fqd by (cases "qd s") simp_all
  have m2: "fmul r (spec_qdd r s) (Fin 0) = Fin 0" using r0 facc by (cases "spec_qdd r s") simp_all
  have 1: "q (Path_pollForInterval r 0 s) = q s"
    by (simp add: poll_integrate dt m1 fadd_zero [OF rq])
  have 2: "qd (Path_pollForInterval r 0 s) = qd s"
    by (simp add: poll_integrate dt m2 fadd_zero [OF rqd] constrain_id [OF bound])
  have 3: "t (Path_pollForInterval r 0 s) = t s"
    by (simp add: poll_integrate dt fadd_zero [OF rt])
  have 4: "q_d (Path_pollForInterval r 0 s) = q_d_d s \<and> qd_d (Path_pollForInterval r 0 s) = Fin 0"
    if "\<not> feq (spec_err r s) (Fin 0) \<and> isinf (speed s)"
    using that by (simp add: poll_reference)
  have ni: "\<not> isinf (speed s)" if "is_fin (speed s)" using that by (cases "speed s") simp_all
  have 5: "qd_d (Path_pollForInterval r 0 s) = speed s \<and> q_d (Path_pollForInterval r 0 s) = q_d s"
    if h: "is_fin (speed s) \<and> flt (Fin 0) (spec_err r s)"
  proof -
    have st: "fmul r (speed s) (Fin 0) = Fin 0" using r0 h by (cases "speed s") simp_all
    show ?thesis using h ni flt_pos_not_eq [of "spec_err r s"]
      by (simp add: poll_reference dt st min_f_zero fadd_zero [OF rref])
  qed
  have 6: "qd_d (Path_pollForInterval r 0 s) = fneg (speed s) \<and> q_d (Path_pollForInterval r 0 s) = q_d s"
    if h: "is_fin (speed s) \<and> flt (spec_err r s) (Fin 0)"
  proof -
    have st: "fmul r (speed s) (Fin 0) = Fin 0" using r0 h by (cases "speed s") simp_all
    show ?thesis using h ni flt_neg [of "spec_err r s"]
      by (simp add: poll_reference dt st min_f_zero fsub_zero [OF rref])
  qed
  show ?thesis using 1 2 3 4 5 6 by blast
qed

theorem C10_zero_interval_witness:
  "q (Path_pollForInterval exact 0 (Path_setTarget exact 10 (Path_init exact))) = Fin 0 \<and>
   q_d (Path_pollForInterval exact 0 (Path_setTarget exact 10 (Path_init exact))) = Fin 10 \<and>
   qd_d (Path_pollForInterval exact 0 (Path_setTarget exact 10 (Path_init exact))) = Fin 0 \<and>
   q_d (Path_pollForInterval exact 0
     (Path_setSpeed exact 5 (Path_setTarget exact 10 (Path_init exact)))) = Fin 0 \<and>
   qd_d (Path_pollForInterval exact 0
     (Path_setSpeed exact 5 (Path_setTarget exact 10 (Path_init exact)))) = Fin 5 \<and>
   q_d (Path_pollForInterval exact 0
     (Path_setSpeed exact 5 (Path_setTarget exact (- 10) (Path_init exact)))) = Fin 0 \<and>
   qd_d (Path_pollForInterval exact 0
     (Path_setSpeed exact 5 (Path_setTarget exact (- 10) (Path_init exact)))) = Fin (- 5)"
proof -
  let ?j = "Path_setTarget exact 10 (Path_init exact)"
  let ?f = "Path_setSpeed exact 5 (Path_setTarget exact 10 (Path_init exact))"
  let ?g = "Path_setSpeed exact 5 (Path_setTarget exact (- 10) (Path_init exact))"
  have r0: "exact 0 = Fin 0" and c: "is_fin (exact (1 / 1000000))" by (simp_all add: exact_def)
  have rep: "representable exact x" for x by (cases x) (simp_all add: exact_def)
  have j: "q ?j = Fin 0" "qd ?j = Fin 0" "q_d ?j = Fin 0" "qd_d ?j = Fin 0" "q_d_d ?j = Fin 10"
    "speed ?j = PInf" "qd_max ?j = Fin 2400" "qdd_max ?j = Fin 24000"
    by (simp_all add: Path_setTarget_def Path_init_fields of_long_def exact_def)
  have f: "q ?f = Fin 0" "qd ?f = Fin 0" "q_d ?f = Fin 0" "qd_d ?f = Fin 0" "q_d_d ?f = Fin 10"
    "speed ?f = Fin 5" "qd_max ?f = Fin 2400" "qdd_max ?f = Fin 24000"
    by (simp_all add: Path_setSpeed_def Path_setTarget_def Path_init_fields of_long_def exact_def)
  have g: "q ?g = Fin 0" "qd ?g = Fin 0" "q_d ?g = Fin 0" "qd_d ?g = Fin 0" "q_d_d ?g = Fin (- 10)"
    "speed ?g = Fin 5" "qd_max ?g = Fin 2400" "qdd_max ?g = Fin 24000"
    by (simp_all add: Path_setSpeed_def Path_setTarget_def Path_init_fields of_long_def exact_def)
  have kb: "is_fin (k (Path_init exact))" "is_fin (b (Path_init exact))"
    by (simp_all add: Path_init_def Path_setFreqDamping_def Let_def M_PI_def exact_def)
  have kbj: "is_fin (k ?j)" "is_fin (b ?j)" "is_fin (k ?f)" "is_fin (b ?f)"
    "is_fin (k ?g)" "is_fin (b ?g)"
    using kb by (simp_all add: Path_setSpeed_def Path_setTarget_def)
  have z: "fmul exact x (Fin 0) = Fin 0" if "is_fin x" for x
    using that by (cases x) (simp_all add: exact_def)
  have aj: "spec_qdd exact ?j = Fin 0"
    by (simp add: spec_qdd_def j fsub_def exact_def z [OF kbj(1)] z [OF kbj(2)] constrain_def)
  have af: "spec_qdd exact ?f = Fin 0"
    by (simp add: spec_qdd_def f fsub_def exact_def z [OF kbj(3)] z [OF kbj(4)] constrain_def)
  have ag: "spec_qdd exact ?g = Fin 0"
    by (simp add: spec_qdd_def g fsub_def exact_def z [OF kbj(5)] z [OF kbj(6)] constrain_def)
  have ej: "spec_err exact ?j = Fin 10" by (simp add: spec_err_def j fsub_def exact_def)
  have ef: "spec_err exact ?f = Fin 10" by (simp add: spec_err_def f fsub_def exact_def)
  have eg: "spec_err exact ?g = Fin (- 10)" by (simp add: spec_err_def g fsub_def exact_def)
  have 1: "q (Path_pollForInterval exact 0 ?j) = Fin 0 \<and>
      q_d (Path_pollForInterval exact 0 ?j) = Fin 10 \<and>
      qd_d (Path_pollForInterval exact 0 ?j) = Fin 0"
    using C10_zero_interval [of exact ?j, OF r0 c rep rep rep rep] unfolding j aj ej
    by (simp add: fle_def)
  have 2: "q_d (Path_pollForInterval exact 0 ?f) = Fin 0 \<and>
      qd_d (Path_pollForInterval exact 0 ?f) = Fin 5"
    using C10_zero_interval [of exact ?f, OF r0 c rep rep rep rep] unfolding f af ef
    by (simp add: fle_def)
  have 3: "q_d (Path_pollForInterval exact 0 ?g) = Fin 0 \<and>
      qd_d (Path_pollForInterval exact 0 ?g) = Fin (- 5)"
    using C10_zero_interval [of exact ?g, OF r0 c rep rep rep rep] unfolding g ag eg
    by (simp add: fle_def)
  show ?thesis using 1 2 3 by blast
qed

text \<open>
  C10 as stated fails: \<open>|qd| \<le> qd_max\<close> beforehand is not enough. With both gains 0 and
  the reference at \<open>+\<infinity>\<close>, a poll of 0 microseconds computes the acceleration
  \<open>0 \<cdot> \<infinity>\<close>, and \<open>qd\<close> changes from 0 to NaN.
\<close>

theorem C10_zero_interval_counterexample:
  "fle (fabs (qd (Path_pollForInterval exact 0 (Path_setSpeed exact 0
        (Path_setVelocity exact 1 (Path_setPDgains (Fin 0) (Fin 0) (Path_init exact)))))))
      (qd_max (Path_pollForInterval exact 0 (Path_setSpeed exact 0
        (Path_setVelocity exact 1 (Path_setPDgains (Fin 0) (Fin 0) (Path_init exact)))))) \<and>
   qd (Path_pollForInterval exact 0 (Path_setSpeed exact 0
        (Path_setVelocity exact 1 (Path_setPDgains (Fin 0) (Fin 0) (Path_init exact))))) = Fin 0 \<and>
   qd (Path_pollForInterval exact 0 (Path_pollForInterval exact 0 (Path_setSpeed exact 0
        (Path_setVelocity exact 1 (Path_setPDgains (Fin 0) (Fin 0) (Path_init exact)))))) = NaN"
proof -
  let ?s0 = "Path_setSpeed exact 0 (Path_setVelocity exact 1
           (Path_setPDgains (Fin 0) (Fin 0) (Path_init exact)))"
  have s0: "q ?s0 = Fin 0" "qd ?s0 = Fin 0" "q_d ?s0 = Fin 0" "qd_d ?s0 = Fin 0"
    "q_d_d ?s0 = PInf" "speed ?s0 = PInf" "k ?s0 = Fin 0" "b ?s0 = Fin 0"
    "qd_max ?s0 = Fin 2400" "qdd_max ?s0 = Fin 24000"
    by (simp_all add: Path_setSpeed_def Path_setVelocity_def Path_setPDgains_def Let_def
        Path_init_fields)
  let ?s1 = "Path_pollForInterval exact 0 ?s0"
  have e0: "spec_err exact ?s0 = PInf" by (simp add: spec_err_def s0 fsub_def)
  have q0: "spec_qdd exact ?s0 = Fin 0"
    by (simp add: spec_qdd_def s0 fsub_def exact_def constrain_def)
  have s1: "q ?s1 = Fin 0" "qd ?s1 = Fin 0" "q_d ?s1 = PInf" "qd_d ?s1 = Fin 0"
    "k ?s1 = Fin 0" "b ?s1 = Fin 0" "qd_max ?s1 = Fin 2400" "qdd_max ?s1 = Fin 24000"
    by (simp_all add: poll_integrate poll_reference poll_frame_path s0 e0 q0 spec_dt_exact
        exact_def constrain_def)
  have q1: "spec_qdd exact ?s1 = NaN"
    by (simp add: spec_qdd_def s1 fsub_def exact_def constrain_def inf_times_def)
  have "qd (Path_pollForInterval exact 0 ?s1) =
      constrain (fadd exact (qd ?s1) (fmul exact (spec_qdd exact ?s1) (spec_dt exact 0)))
        (fneg (qd_max ?s1)) (qd_max ?s1)"
    by (rule poll_integrate)
  then have nan: "qd (Path_pollForInterval exact 0 ?s1) = NaN"
    unfolding s1 q1 spec_dt_exact by (simp add: constrain_def)
  show ?thesis unfolding nan s1 by (simp add: fle_def)
qed

end
